theory Spec2Isabelle
  imports Complex_Main "HOL-Library.Sublist" "HOL-Library.Char_ord" "HOL-Library.List_Lexorder"
    "HOL-Library.Multiset"
begin

section \<open>JavaScript values used by the server\<close>

text \<open>
  A JavaScript \<^verbatim>\<open>number\<close> is modelled as a real number: the arithmetic of the
  code is read exactly, without the rounding of IEEE doubles and without NaN or
  infinities. A string is a list of characters; the model handles the ASCII range,
  which covers every pattern the code matches against.
\<close>

type_synonym number = real

text \<open>Values that the code throws. \<open>ThrownUndefined\<close> is \<^verbatim>\<open>throw undefined\<close>.\<close>

datatype error = Error string | RangeError string | ThrownUndefined

fun message :: "error \<Rightarrow> string" where
  "message (Error m) = m"
| "message (RangeError m) = m"
| "message ThrownUndefined = []"

subsection \<open>String operations\<close>

definition toLowerCaseChar :: "char \<Rightarrow> char" where
  "toLowerCaseChar c =
     (case map_of (zip ''ABCDEFGHIJKLMNOPQRSTUVWXYZ'' ''abcdefghijklmnopqrstuvwxyz'') c of
        Some l \<Rightarrow> l
      | None \<Rightarrow> c)"

definition toLowerCase :: "string \<Rightarrow> string" where
  "toLowerCase s = map toLowerCaseChar s"

text \<open>\<^verbatim>\<open>s.includes(sub)\<close>: \<open>sub\<close> occurs in \<open>s\<close> at some position.\<close>

fun str_includes :: "string \<Rightarrow> string \<Rightarrow> bool" where
  "str_includes [] sub = (sub = [])"
| "str_includes (c # cs) sub = (prefix sub (c # cs) \<or> str_includes cs sub)"

text \<open>\<^verbatim>\<open>s.startsWith(p)\<close>\<close>

definition startsWith :: "string \<Rightarrow> string \<Rightarrow> bool" where
  "startsWith s p = prefix p s"

text \<open>\<^verbatim>\<open>s.slice(n)\<close> for \<open>0 \<le> n\<close>\<close>

definition slice_from :: "string \<Rightarrow> nat \<Rightarrow> string" where
  "slice_from s n = drop n s"

text \<open>\<^verbatim>\<open>x || d\<close> on an optional string: undefined and the empty string are falsy.\<close>

definition or_string :: "string option \<Rightarrow> string \<Rightarrow> string" where
  "or_string x d = (case x of None \<Rightarrow> d | Some s \<Rightarrow> if s = [] then d else s)"

text \<open>\<^verbatim>\<open>x || undefined\<close> on optional values.\<close>

definition or_undefined_string :: "string option \<Rightarrow> string option" where
  "or_undefined_string x = (case x of None \<Rightarrow> None | Some s \<Rightarrow> if s = [] then None else Some s)"

definition or_undefined_bool :: "bool option \<Rightarrow> bool option" where
  "or_undefined_bool x = (case x of None \<Rightarrow> None | Some b \<Rightarrow> if b then Some True else None)"

text \<open>\<^verbatim>\<open>x || 0\<close> on an optional number.\<close>

definition or_zero :: "number option \<Rightarrow> number" where
  "or_zero x = (case x of None \<Rightarrow> 0 | Some v \<Rightarrow> v)"

section \<open>The remote service and the trace of what the client does\<close>

text \<open>
  \<^verbatim>\<open>src/gsc/client.ts\<close>. The googleapis handle \<^verbatim>\<open>this.webmasters\<close> is an injected
  capability. Every remote call and every \<^verbatim>\<open>sleep\<close> of the client is appended to a
  trace; the answer of the service may depend on the whole trace so far, so a service
  can fail a number of times and then succeed.
\<close>

record filter =
  f_dimension :: string
  f_operator :: string
  f_expression :: string

record filter_group =
  fg_groupType :: "string option"
  fg_filters :: "filter list"

text \<open>The \<^verbatim>\<open>requestBody\<close> of \<^verbatim>\<open>searchanalytics.query\<close>, with the \<^verbatim>\<open>siteUrl\<close>.\<close>

record request =
  rq_siteUrl :: string
  rq_startDate :: string
  rq_endDate :: string
  rq_dimensions :: "string list option"
  rq_dimensionFilterGroups :: "filter_group list option"
  rq_rowLimit :: nat
  rq_startRow :: nat
  rq_dataState :: "string option"
  rq_aggregationType :: "string option"

datatype event =
    SitesGet string
  | SitemapsGet string string
  | SearchanalyticsQuery request
  | Sleep nat

type_synonym trace = "event list"

text \<open>What the API sends back: every field may be missing.\<close>

record api_row =
  ar_keys :: "string list option"
  ar_clicks :: "number option"
  ar_impressions :: "number option"
  ar_ctr :: "number option"
  ar_position :: "number option"

record api_query_data =
  aq_rows :: "api_row list option"
  aq_responseAggregationType :: "string option"

record api_site =
  as_siteUrl :: "string option"
  as_permissionLevel :: "string option"

record api_sitemap =
  am_path :: "string option"
  am_lastSubmitted :: "string option"
  am_isPending :: "bool option"
  am_isSitemapsIndex :: "bool option"
  am_type :: "string option"
  am_lastDownloaded :: "string option"
  am_warnings :: "string option"
  am_errors :: "string option"

record service =
  sites_get :: "trace \<Rightarrow> string \<Rightarrow> error + api_site"
  sitemaps_get :: "trace \<Rightarrow> string \<Rightarrow> string \<Rightarrow> error + api_sitemap"
  searchanalytics_query :: "trace \<Rightarrow> request \<Rightarrow> error + api_query_data"

text \<open>
  An operation passed to \<^verbatim>\<open>withRetry\<close>: a thunk that acts on the trace. A remote
  call records its event and takes its answer from the service.
\<close>

type_synonym 'a operation = "trace \<Rightarrow> (error + 'a) \<times> trace"

definition remote_call :: "event \<Rightarrow> (trace \<Rightarrow> error + 'a) \<Rightarrow> 'a operation" where
  "remote_call ev answer t = (answer t, t @ [ev])"

definition call_sites_get :: "service \<Rightarrow> string \<Rightarrow> api_site operation" where
  "call_sites_get svc siteUrl =
     remote_call (SitesGet siteUrl) (\<lambda>t. sites_get svc t siteUrl)"

definition call_sitemaps_get :: "service \<Rightarrow> string \<Rightarrow> string \<Rightarrow> api_sitemap operation" where
  "call_sitemaps_get svc siteUrl feedpath =
     remote_call (SitemapsGet siteUrl feedpath) (\<lambda>t. sitemaps_get svc t siteUrl feedpath)"

definition call_searchanalytics_query :: "service \<Rightarrow> request \<Rightarrow> api_query_data operation" where
  "call_searchanalytics_query svc req =
     remote_call (SearchanalyticsQuery req) (\<lambda>t. searchanalytics_query svc t req)"

definition sleep :: "nat \<Rightarrow> trace \<Rightarrow> trace" where
  "sleep ms t = t @ [Sleep ms]"

section \<open>Retry with exponential back-off\<close>

definition MAX_RETRIES :: nat where "MAX_RETRIES = 3"
definition RETRY_DELAY_MS :: nat where "RETRY_DELAY_MS = 1000"
definition MAX_ROWS_PER_REQUEST :: nat where "MAX_ROWS_PER_REQUEST = 25000"

definition isRetryableError :: "error \<Rightarrow> bool" where
  "isRetryableError err =
     (let msg = toLowerCase (message err) in
      if str_includes msg ''quota'' \<or> str_includes msg ''rate limit'' then True
      else if str_includes msg ''econnreset'' \<or> str_includes msg ''etimedout'' \<or> str_includes msg ''enotfound''
        then True
      else if str_includes msg ''500'' \<or> str_includes msg ''503'' then True
      else False)"

text \<open>
  The \<^verbatim>\<open>for\<close> loop of \<^verbatim>\<open>withRetry\<close>, from the value \<open>attempt\<close> of the loop counter.
  An operation only rejects with \<^verbatim>\<open>Error\<close> objects here, so the normalisation
  \<^verbatim>\<open>error instanceof Error ? error : new Error(String(error))\<close> is the identity.
\<close>

function withRetry_loop ::
  "'a operation \<Rightarrow> nat \<Rightarrow> nat \<Rightarrow> error option \<Rightarrow> 'a operation" where
  "withRetry_loop operation retries attempt lastError t =
     (if attempt \<le> retries then
        (case operation t of
           (Inr v, t') \<Rightarrow> (Inr v, t')
         | (Inl e, t') \<Rightarrow>
             if \<not> isRetryableError e \<or> attempt = retries then (Inl e, t')
             else withRetry_loop operation retries (attempt + 1) (Some e)
                    (sleep (RETRY_DELAY_MS * 2 ^ attempt) t'))
      else (Inl (case lastError of None \<Rightarrow> ThrownUndefined | Some e \<Rightarrow> e), t))"
  by pat_completeness auto
termination
  by (relation "measure (\<lambda>(operation, retries, attempt, lastError, t). Suc retries - attempt)") auto

declare withRetry_loop.simps [simp del]

definition withRetry :: "'a operation \<Rightarrow> nat \<Rightarrow> 'a operation" where
  "withRetry operation retries = withRetry_loop operation retries 0 None"

section \<open>Single-entity reads\<close>

record SiteInfo =
  si_siteUrl :: string
  si_permissionLevel :: string

text \<open>
  \<^verbatim>\<open>Number(s)\<close> on the counts that the API sends as strings is a parameter
  \<open>toNumber\<close> of \<open>getSitemap\<close>.
\<close>

record SitemapInfo =
  sm_path :: string
  sm_lastSubmitted :: "string option"
  sm_isPending :: "bool option"
  sm_isSitemapsIndex :: "bool option"
  sm_type :: "string option"
  sm_lastDownloaded :: "string option"
  sm_warnings :: "number option"
  sm_errors :: "number option"

text \<open>
  \<^verbatim>\<open>try { ... } catch { return null; }\<close>: the result is an error or a value, and the
  value is \<open>None\<close> for \<^verbatim>\<open>null\<close>.
\<close>

definition getSite :: "service \<Rightarrow> string \<Rightarrow> (SiteInfo option) operation" where
  "getSite svc siteUrl t =
     (case withRetry (call_sites_get svc siteUrl) MAX_RETRIES t of
        (Inr data, t') \<Rightarrow>
          (Inr (Some \<lparr> si_siteUrl = or_string (as_siteUrl data) siteUrl,
                        si_permissionLevel = or_string (as_permissionLevel data) ''unknown'' \<rparr>), t')
      | (Inl e, t') \<Rightarrow> (Inr None, t'))"

definition number_or_undefined :: "(string \<Rightarrow> number) \<Rightarrow> string option \<Rightarrow> number option" where
  "number_or_undefined toNumber x =
     (case x of None \<Rightarrow> None | Some s \<Rightarrow> if s = [] then None else Some (toNumber s))"

definition getSitemap ::
  "(string \<Rightarrow> number) \<Rightarrow> service \<Rightarrow> string \<Rightarrow> string \<Rightarrow> (SitemapInfo option) operation" where
  "getSitemap toNumber svc siteUrl feedpath t =
     (case withRetry (call_sitemaps_get svc siteUrl feedpath) MAX_RETRIES t of
        (Inr data, t') \<Rightarrow>
          (Inr (Some \<lparr> sm_path = or_string (am_path data) feedpath,
                        sm_lastSubmitted = or_undefined_string (am_lastSubmitted data),
                        sm_isPending = or_undefined_bool (am_isPending data),
                        sm_isSitemapsIndex = or_undefined_bool (am_isSitemapsIndex data),
                        sm_type = or_undefined_string (am_type data),
                        sm_lastDownloaded = or_undefined_string (am_lastDownloaded data),
                        sm_warnings = number_or_undefined toNumber (am_warnings data),
                        sm_errors = number_or_undefined toNumber (am_errors data) \<rparr>), t')
      | (Inl e, t') \<Rightarrow> (Inr None, t'))"

section \<open>Search analytics queries and pagination\<close>

text \<open>The \<^verbatim>\<open>SearchAnalyticsQuery\<close> descriptor: limit and offset are optional.\<close>

record query =
  q_siteUrl :: string
  q_startDate :: string
  q_endDate :: string
  q_dimensions :: "string list option"
  q_dimensionFilterGroups :: "filter_group list option"
  q_rowLimit :: "nat option"
  q_startRow :: "nat option"
  q_dataState :: "string option"
  q_aggregationType :: "string option"

record row =
  keys :: "string list option"
  clicks :: number
  impressions :: number
  ctr :: number
  position :: number

record response =
  rows :: "row list option"
  responseAggregationType :: "string option"

text \<open>\<^verbatim>\<open>x || d\<close> on an optional count: undefined and 0 are falsy.\<close>

definition or_nat :: "nat option \<Rightarrow> nat \<Rightarrow> nat" where
  "or_nat x d = (case x of None \<Rightarrow> d | Some n \<Rightarrow> if n = 0 then d else n)"

text \<open>A destructuring default \<^verbatim>\<open>{ x = d }\<close> only replaces undefined.\<close>

definition default_nat :: "nat option \<Rightarrow> nat \<Rightarrow> nat" where
  "default_nat x d = (case x of None \<Rightarrow> d | Some n \<Rightarrow> n)"

definition toRow :: "api_row \<Rightarrow> row" where
  "toRow r = \<lparr> keys = ar_keys r, clicks = or_zero (ar_clicks r),
      impressions = or_zero (ar_impressions r), ctr = or_zero (ar_ctr r),
      position = or_zero (ar_position r) \<rparr>"

text \<open>The request that \<open>searchAnalytics\<close> sends for a descriptor, a limit and an offset.\<close>

definition requestBody :: "query \<Rightarrow> nat \<Rightarrow> nat \<Rightarrow> request" where
  "requestBody query rowLimit startRow =
     \<lparr> rq_siteUrl = q_siteUrl query,
       rq_startDate = q_startDate query,
       rq_endDate = q_endDate query,
       rq_dimensions = q_dimensions query,
       rq_dimensionFilterGroups = q_dimensionFilterGroups query,
       rq_rowLimit = rowLimit,
       rq_startRow = startRow,
       rq_dataState = q_dataState query,
       rq_aggregationType = q_aggregationType query \<rparr>"

text \<open>
  \<open>searchAnalytics\<close> and \<open>searchAnalyticsPaginated\<close> call each other; the
  \<^verbatim>\<open>while\<close> loop of the latter is \<open>searchAnalyticsPaginated_loop\<close>, on the loop
  variables \<^verbatim>\<open>allRows\<close>, \<^verbatim>\<open>startRow\<close> and \<^verbatim>\<open>responseAggregationType\<close>.
\<close>

function searchAnalytics :: "service \<Rightarrow> query \<Rightarrow> response operation"
  and searchAnalyticsPaginated :: "service \<Rightarrow> query \<Rightarrow> response operation"
  and searchAnalyticsPaginated_loop ::
    "service \<Rightarrow> query \<Rightarrow> nat \<Rightarrow> row list \<Rightarrow> nat \<Rightarrow> string option \<Rightarrow> response operation"
where
  "searchAnalytics svc query t =
     (let rowLimit = default_nat (q_rowLimit query) 1000;
          startRow = default_nat (q_startRow query) 0
      in if rowLimit > MAX_ROWS_PER_REQUEST then searchAnalyticsPaginated svc query t
         else
           (case withRetry (call_searchanalytics_query svc (requestBody query rowLimit startRow))
                   MAX_RETRIES t of
              (Inl e, t') \<Rightarrow> (Inl e, t')
            | (Inr data, t') \<Rightarrow>
                (Inr \<lparr> rows = map_option (map toRow) (aq_rows data),
                       responseAggregationType =
                         or_undefined_string (aq_responseAggregationType data) \<rparr>, t')))"
| "searchAnalyticsPaginated svc query t =
     searchAnalyticsPaginated_loop svc query
       (or_nat (q_rowLimit query) MAX_ROWS_PER_REQUEST) [] (or_nat (q_startRow query) 0) None t"
| "searchAnalyticsPaginated_loop svc query totalRowsRequested allRows startRow agg t =
     (if length allRows < totalRowsRequested then
        (let rowsToFetch = min MAX_ROWS_PER_REQUEST (totalRowsRequested - length allRows) in
         case searchAnalytics svc
                (query\<lparr> q_rowLimit := Some rowsToFetch, q_startRow := Some startRow \<rparr>) t of
           (Inl e, t') \<Rightarrow> (Inl e, t')
         | (Inr response, t') \<Rightarrow>
             (case rows response of
                None \<Rightarrow> (Inr \<lparr> rows = Some allRows, responseAggregationType = agg \<rparr>, t')
              | Some rs \<Rightarrow>
                  if rs = [] then
                    (Inr \<lparr> rows = Some allRows, responseAggregationType = agg \<rparr>, t')
                  else if length rs < rowsToFetch then
                    (Inr \<lparr> rows = Some (allRows @ rs),
                           responseAggregationType = responseAggregationType response \<rparr>, t')
                  else searchAnalyticsPaginated_loop svc query totalRowsRequested (allRows @ rs)
                         (startRow + rowsToFetch) (responseAggregationType response) t'))
      else (Inr \<lparr> rows = Some allRows, responseAggregationType = agg \<rparr>, t))"
  by pat_completeness auto
termination
  by (relation "measure (\<lambda>x. case x of
      Inl (svc, query, t) \<Rightarrow>
        (if default_nat (q_rowLimit query) 1000 > MAX_ROWS_PER_REQUEST
         then 2 * default_nat (q_rowLimit query) 1000 + 3 else 0)
    | Inr (Inl (svc, query, t)) \<Rightarrow> 2 * or_nat (q_rowLimit query) MAX_ROWS_PER_REQUEST + 2
    | Inr (Inr (svc, query, n, allRows, startRow, agg, t)) \<Rightarrow> 2 * (n - length allRows) + 1)")
    (auto simp: default_nat_def or_nat_def MAX_ROWS_PER_REQUEST_def split: option.splits)

declare searchAnalytics.simps [simp del]
declare searchAnalyticsPaginated.simps [simp del]
declare searchAnalyticsPaginated_loop.simps [simp del]

text \<open>The search analytics requests recorded in a trace, in order.\<close>

fun requests_of :: "trace \<Rightarrow> request list" where
  "requests_of [] = []"
| "requests_of (SearchanalyticsQuery req # es) = req # requests_of es"
| "requests_of (SitesGet a # es) = requests_of es"
| "requests_of (SitemapsGet a b # es) = requests_of es"
| "requests_of (Sleep ms # es) = requests_of es"

text \<open>
  The pages a descriptor asks for when every page comes back full: page \<open>i\<close> starts
  at \<open>start + i * 25000\<close> and asks for what is still missing, at most 25000 rows.
\<close>

definition page_requests :: "query \<Rightarrow> nat \<Rightarrow> nat \<Rightarrow> request list" where
  "page_requests query start n =
     map (\<lambda>i. requestBody query
                 (min MAX_ROWS_PER_REQUEST (n - i * MAX_ROWS_PER_REQUEST))
                 (start + i * MAX_ROWS_PER_REQUEST))
       [0..<(n + MAX_ROWS_PER_REQUEST - 1) div MAX_ROWS_PER_REQUEST]"

text \<open>A service that answers every query, with as many rows as the request asks for.\<close>

definition full_pages :: "service \<Rightarrow> bool" where
  "full_pages svc \<longleftrightarrow>
     (\<forall>t req. \<exists>d rs. searchanalytics_query svc t req = Inr d \<and> aq_rows d = Some rs
        \<and> length rs = rq_rowLimit req)"

subsection \<open>Concrete services and descriptors for the worked examples\<close>

text \<open>
  \<open>steady_service page msg\<close> fails every site and sitemap read with the message
  \<open>msg\<close> and answers every query with \<open>page\<close> rows, or with as many rows as
  the request asks for when \<open>page\<close> is \<open>None\<close>.
\<close>

definition blank_row :: api_row where
  "blank_row = \<lparr> ar_keys = None, ar_clicks = None, ar_impressions = None, ar_ctr = None,
                  ar_position = None \<rparr>"

definition steady_service :: "nat option \<Rightarrow> string \<Rightarrow> service" where
  "steady_service page msg =
     \<lparr> sites_get = (\<lambda>t siteUrl. Inl (Error msg)),
       sitemaps_get = (\<lambda>t siteUrl feedpath. Inl (Error msg)),
       searchanalytics_query = (\<lambda>t req.
          Inr \<lparr> aq_rows = Some (replicate (case page of None \<Rightarrow> rq_rowLimit req | Some n \<Rightarrow> n) blank_row),
                aq_responseAggregationType = None \<rparr>) \<rparr>"

definition example_query :: "nat option \<Rightarrow> query" where
  "example_query limit =
     \<lparr> q_siteUrl = ''sc-domain:example.com'', q_startDate = ''2024-01-01'',
       q_endDate = ''2024-01-31'', q_dimensions = Some [''query'', ''page''],
       q_dimensionFilterGroups = None, q_rowLimit = limit, q_startRow = None,
       q_dataState = None, q_aggregationType = None \<rparr>"

text \<open>
  \<open>failing_service msg\<close> fails every call with the message \<open>msg\<close>.
  \<open>drying_service k n\<close> answers a query with as many rows as it asks for while
  fewer than \<open>k\<close> queries have been sent, and with \<open>n\<close> rows afterwards.
\<close>

definition failing_service :: "string \<Rightarrow> service" where
  "failing_service msg =
     \<lparr> sites_get = (\<lambda>t siteUrl. Inl (Error msg)),
       sitemaps_get = (\<lambda>t siteUrl feedpath. Inl (Error msg)),
       searchanalytics_query = (\<lambda>t req. Inl (Error msg)) \<rparr>"

definition drying_service :: "nat \<Rightarrow> nat \<Rightarrow> service" where
  "drying_service k n =
     \<lparr> sites_get = (\<lambda>t siteUrl. Inl (Error ''unused'')),
       sitemaps_get = (\<lambda>t siteUrl feedpath. Inl (Error ''unused'')),
       searchanalytics_query = (\<lambda>t req.
          Inr \<lparr> aq_rows = Some (replicate (if length (requests_of t) < k then rq_rowLimit req else n)
                                   blank_row),
                aq_responseAggregationType = None \<rparr>) \<rparr>"


section \<open>Numbers as text\<close>

text \<open>\<^verbatim>\<open>Math.round\<close>: the nearest integer, a tie going up.\<close>

definition Math_round :: "number \<Rightarrow> int" where
  "Math_round x = \<lfloor>x + 1 / 2\<rfloor>"

definition digit_char :: "nat \<Rightarrow> char" where
  "digit_char d = ''0123456789'' ! d"

text \<open>The decimal digits of a natural number.\<close>

fun show_nat :: "nat \<Rightarrow> string" where
  "show_nat n = (if n < 10 then [digit_char n] else show_nat (n div 10) @ [digit_char (n mod 10)])"

declare show_nat.simps [simp del]

text \<open>An integer as \<^verbatim>\<open>String(n)\<close> and template literals print it.\<close>

definition show_int :: "int \<Rightarrow> string" where
  "show_int i = (if i < 0 then ''-'' @ show_nat (nat (- i)) else show_nat (nat i))"

text \<open>
  \<^verbatim>\<open>x.toFixed(f)\<close> for \<open>\<bar>x\<bar> < 10\<^sup>2\<^sup>1\<close>, after the steps of the language
  definition: the sign is taken off, \<open>n\<close> is the integer nearest to \<open>x * 10\<^sup>f\<close> (the
  larger one on a tie), its digits are padded with zeros to \<open>f + 1\<close> places and the
  point is put before the last \<open>f\<close> digits.
\<close>

definition toFixed :: "nat \<Rightarrow> number \<Rightarrow> string" where
  "toFixed f x =
     (let s = (if x < 0 then ''-'' else '''');
          n = nat \<lfloor>\<bar>x\<bar> * 10 ^ f + 1 / 2\<rfloor>;
          m = show_nat n;
          m' = (if f \<noteq> 0 \<and> length m \<le> f then replicate (f + 1 - length m) (CHR ''0'') @ m else m);
          k = length m'
      in if f = 0 then s @ m' else s @ take (k - f) m' @ ''.'' @ drop (k - f) m')"

section \<open>Response formatting\<close>

text \<open>\<^verbatim>\<open>src/server/tools/formatters.ts\<close>\<close>

datatype ctr_value = CtrNumber number | CtrString string

definition formatCtr :: "number \<Rightarrow> bool \<Rightarrow> ctr_value" where
  "formatCtr c compact_mode =
     (if compact_mode then CtrString (toFixed 2 (c * 100) @ ''%'')
      else CtrNumber (of_int (Math_round (c * 10000)) / 10000))"

definition formatPosition :: "number \<Rightarrow> number" where
  "formatPosition p = of_int (Math_round (p * 10)) / 10"

text \<open>\<^verbatim>\<open>s.replace(pat, rep)\<close> with a string pattern: the first occurrence only.\<close>

fun replace_first :: "string \<Rightarrow> string \<Rightarrow> string \<Rightarrow> string" where
  "replace_first [] pat rep = (if pat = [] then rep else [])"
| "replace_first (c # cs) pat rep =
     (if prefix pat (c # cs) then rep @ drop (length pat) (c # cs)
      else c # replace_first cs pat rep)"

text \<open>\<^verbatim>\<open>s.replace(/\/$/, '')\<close>: one slash at the end is removed.\<close>

definition strip_trailing_slash :: "string \<Rightarrow> string" where
  "strip_trailing_slash s = (if s \<noteq> [] \<and> last s = CHR ''/'' then butlast s else s)"

text \<open>\<^verbatim>\<open>s || d\<close> on a string: the empty string is falsy.\<close>

definition or_str :: "string \<Rightarrow> string \<Rightarrow> string" where
  "or_str s d = (if s = [] then d else s)"

definition domain_prefixes :: "string \<Rightarrow> string list" where
  "domain_prefixes domain =
     [''https://'' @ domain, ''https://www.'' @ domain, ''http://'' @ domain,
      ''http://www.'' @ domain]"

definition stripUrlPrefix :: "string \<Rightarrow> string option \<Rightarrow> string" where
  "stripUrlPrefix url siteUrl =
     (case siteUrl of
        None \<Rightarrow> url
      | Some site \<Rightarrow>
          if site = [] \<or> url = [] then url
          else if startsWith site ''sc-domain:'' then
            (let domain = replace_first site ''sc-domain:'' '''' in
             case find (\<lambda>p. startsWith url p) (domain_prefixes domain) of
               Some p \<Rightarrow> or_str (slice_from url (length p)) ''/''
             | None \<Rightarrow> url)
          else
            (let pre = strip_trailing_slash site in
             if startsWith url pre then or_str (slice_from url (length pre)) ''/'' else url))"

text \<open>\<^verbatim>\<open>row.keys?.[i]\<close>\<close>

definition key_at :: "row \<Rightarrow> nat \<Rightarrow> string option" where
  "key_at r i =
     (case keys r of None \<Rightarrow> None | Some ks \<Rightarrow> if i < length ks then Some (ks ! i) else None)"

text \<open>\<^verbatim>\<open>xs.slice(0, limit)\<close> for an integer \<open>limit\<close>: a negative one counts from the end.\<close>

definition slice0 :: "'a list \<Rightarrow> int \<Rightarrow> 'a list" where
  "slice0 xs limit =
     (if 0 \<le> limit then take (nat limit) xs else take (length xs - nat (- limit)) xs)"

definition default_number :: "number option \<Rightarrow> number \<Rightarrow> number" where
  "default_number x d = (case x of None \<Rightarrow> d | Some v \<Rightarrow> v)"

definition default_int :: "int option \<Rightarrow> int \<Rightarrow> int" where
  "default_int x d = (case x of None \<Rightarrow> d | Some v \<Rightarrow> v)"

definition DEFAULT_ROW_LIMIT :: int where "DEFAULT_ROW_LIMIT = 25"

section \<open>Opportunity analyses\<close>

text \<open>
  \<^verbatim>\<open>handleOpportunityTool\<close>, from the rows that the query returned to the lists it
  reports. The arguments of a tool call are optional; \<open>og_format\<close> is \<open>Some ''compact''\<close>
  for the compact shape.
\<close>

record opportunity_args =
  og_siteUrl :: string
  og_format :: "string option"
  og_minImpressions :: "number option"
  og_maxCtr :: "number option"
  og_minPosition :: "number option"
  og_maxPosition :: "number option"
  og_limit :: "int option"

definition is_compact :: "opportunity_args \<Rightarrow> bool" where
  "is_compact args = (or_string (og_format args) ''full'' = ''compact'')"

subsection \<open>Low CTR at a high position\<close>

text \<open>
  The two shapes of a reported opportunity. The fields are, in this order,
  \<^verbatim>\<open>q, page, clicks, imp, ctr, pos, potential\<close> in the compact shape and
  \<^verbatim>\<open>query, page, clicks, impressions, ctr, position, potentialClicks\<close> in the full one.
\<close>

datatype opportunity =
    CompactOpportunity string string number number ctr_value number int
  | FullOpportunity string string number number ctr_value number int

text \<open>\<^verbatim>\<open>o.potential ?? o.potentialClicks\<close>\<close>

fun potential_of :: "opportunity \<Rightarrow> int" where
  "potential_of (CompactOpportunity a b c d e f p) = p"
| "potential_of (FullOpportunity a b c d e f p) = p"

definition lowCtr_filter :: "opportunity_args \<Rightarrow> row \<Rightarrow> bool" where
  "lowCtr_filter args r \<longleftrightarrow>
     impressions r \<ge> default_number (og_minImpressions args) 100 \<and>
     ctr r < default_number (og_maxCtr args) 0.03 \<and>
     position r \<ge> default_number (og_minPosition args) 4 \<and>
     position r \<le> default_number (og_maxPosition args) 20"

definition lowCtr_map :: "opportunity_args \<Rightarrow> row \<Rightarrow> opportunity" where
  "lowCtr_map args r =
     (let potentialClicks = Math_round (impressions r * 0.05 - clicks r) in
      if is_compact args then
        CompactOpportunity (or_string (key_at r 0) '''')
          (stripUrlPrefix (or_string (key_at r 1) '''') (Some (og_siteUrl args)))
          (clicks r) (impressions r) (formatCtr (ctr r) True) (formatPosition (position r))
          potentialClicks
      else
        FullOpportunity (or_string (key_at r 0) '''')
          (stripUrlPrefix (or_string (key_at r 1) '''') (Some (og_siteUrl args)))
          (clicks r) (impressions r) (formatCtr (ctr r) False) (formatPosition (position r))
          potentialClicks)"

text \<open>
  \<^verbatim>\<open>.sort((a, b) => potential(b) - potential(a))\<close> is a stable sort on the negated
  key. The result is the list of opportunities and \<^verbatim>\<open>totalPotential\<close>.
\<close>

definition lowCtrHighPos :: "opportunity_args \<Rightarrow> row list option \<Rightarrow> opportunity list \<times> int" where
  "lowCtrHighPos args response_rows =
     (let opportunities =
            slice0 (sort_key (\<lambda>opp. - potential_of opp)
                      (map (lowCtr_map args)
                         (filter (lowCtr_filter args)
                            (case response_rows of None \<Rightarrow> [] | Some rs \<Rightarrow> rs))))
                   (default_int (og_limit args) DEFAULT_ROW_LIMIT);
          totalPotential = foldl (\<lambda>acc opp. acc + potential_of opp) 0 opportunities
      in (opportunities, totalPotential))"

subsection \<open>Cannibalization\<close>
















section \<open>Dates\<close>

text \<open>
  A valid \<^verbatim>\<open>Date\<close> is its time value, the milliseconds since 1970-01-01T00:00Z; an
  Invalid Date is \<open>None\<close>. The calendar is the proleptic Gregorian one of the language
  definition. Local time is UTC plus a fixed offset \<open>tz\<close> in minutes, a parameter of
  every function that reads or sets local fields; daylight saving is not modelled.
\<close>

type_synonym date = int

definition msPerDay :: int where "msPerDay = 86400000"

text \<open>Days from 1970-01-01 to the given day of the civil calendar; the day of the month
  may lie outside the month, as in \<^verbatim>\<open>MakeDay\<close>.\<close>

definition days_from_civil :: "int \<Rightarrow> int \<Rightarrow> int \<Rightarrow> int" where
  "days_from_civil y m d =
     (let y' = (if m \<le> 2 then y - 1 else y);
          era = y' div 400;
          yoe = y' - era * 400;
          doy = (153 * (if m > 2 then m - 3 else m + 9) + 2) div 5 + d - 1;
          doe = yoe * 365 + yoe div 4 - yoe div 100 + doy
      in era * 146097 + doe - 719468)"

text \<open>Year, month (1 to 12) and day of the month of a day number.\<close>

definition civil_from_days :: "int \<Rightarrow> int \<times> int \<times> int" where
  "civil_from_days z0 =
     (let z = z0 + 719468;
          era = z div 146097;
          doe = z - era * 146097;
          yoe = (doe - doe div 1460 + doe div 36524 - doe div 146096) div 365;
          y = yoe + era * 400;
          doy = doe - (365 * yoe + yoe div 4 - yoe div 100);
          mp = (5 * doy + 2) div 153;
          d = doy - (153 * mp + 2) div 5 + 1;
          m = (if mp < 10 then mp + 3 else mp - 9)
      in (if m \<le> 2 then y + 1 else y, m, d))"

text \<open>\<^verbatim>\<open>WeekDay\<close>: 0 is Sunday, 1 is Monday; 1970-01-01 was a Thursday.\<close>

definition weekday :: "int \<Rightarrow> int" where
  "weekday day = (day + 4) mod 7"

definition digit_value :: "char \<Rightarrow> nat option" where
  "digit_value c = map_of (zip ''0123456789'' [0, 1, 2, 3, 4, 5, 6, 7, 8, 9]) c"

fun parse_digits :: "string \<Rightarrow> nat \<Rightarrow> nat option" where
  "parse_digits [] acc = Some acc"
| "parse_digits (c # cs) acc =
     (case digit_value c of None \<Rightarrow> None | Some v \<Rightarrow> parse_digits cs (10 * acc + v))"

text \<open>
  \<^verbatim>\<open>new Date(s)\<close>. The date-only form \<^verbatim>\<open>YYYY-MM-DD\<close> with a month from 01 to 12 and
  a day from 01 to 31 is read as midnight UTC; Node accepts a day up to 31 in every
  month and carries the excess into the next month. What the engine makes of every
  other string (other ISO forms, and the free forms of its legacy parser, which finds
  a date in many strings that are not dates) is the parameter \<open>other\<close>: a time value,
  or \<open>None\<close> for an Invalid Date.
\<close>

type_synonym date_parser = "string \<Rightarrow> date option"

definition Date_parse :: "date_parser \<Rightarrow> string \<Rightarrow> date option" where
  "Date_parse other s =
     (if length s = 10 \<and> s ! 4 = CHR ''-'' \<and> s ! 7 = CHR ''-'' then
        (case (parse_digits (take 4 s) 0, parse_digits (take 2 (drop 5 s)) 0,
               parse_digits (drop 8 s) 0) of
           (Some y, Some m, Some d) \<Rightarrow>
             if 1 \<le> m \<and> m \<le> 12 \<and> 1 \<le> d \<and> d \<le> 31
             then Some ((days_from_civil (int y) (int m) 1 + int d - 1) * msPerDay)
             else other s
         | _ \<Rightarrow> other s)
      else other s)"

definition local_time :: "int \<Rightarrow> date \<Rightarrow> int" where
  "local_time tz t = t + tz * 60000"

definition getFullYear :: "int \<Rightarrow> date \<Rightarrow> int" where
  "getFullYear tz t = fst (civil_from_days (local_time tz t div msPerDay))"

text \<open>\<^verbatim>\<open>getMonth\<close> counts from 0.\<close>

definition getMonth :: "int \<Rightarrow> date \<Rightarrow> int" where
  "getMonth tz t = fst (snd (civil_from_days (local_time tz t div msPerDay))) - 1"

definition getDate :: "int \<Rightarrow> date \<Rightarrow> int" where
  "getDate tz t = snd (snd (civil_from_days (local_time tz t div msPerDay)))"

definition getDay :: "int \<Rightarrow> date \<Rightarrow> int" where
  "getDay tz t = weekday (local_time tz t div msPerDay)"

text \<open>\<^verbatim>\<open>setDate(n)\<close>: day \<open>n\<close> of the local month, at the same local time of day.\<close>

definition setDate :: "int \<Rightarrow> date \<Rightarrow> int \<Rightarrow> date" where
  "setDate tz t n =
     (let l = local_time tz t;
          y = fst (civil_from_days (l div msPerDay));
          m = fst (snd (civil_from_days (l div msPerDay)))
      in (days_from_civil y m 1 + n - 1) * msPerDay + l mod msPerDay - tz * 60000)"

text \<open>\<^verbatim>\<open>padStart(n, '0')\<close>\<close>

definition padStart0 :: "nat \<Rightarrow> string \<Rightarrow> string" where
  "padStart0 n s = replicate (n - length s) (CHR ''0'') @ s"

text \<open>\<^verbatim>\<open>toISOString().split('T')[0]\<close>: the UTC date, with the year on four digits, or
  on six with a sign outside 0 to 9999.\<close>

definition toISOString_date :: "date \<Rightarrow> string" where
  "toISOString_date t =
     (let y = fst (civil_from_days (t div msPerDay));
          m = fst (snd (civil_from_days (t div msPerDay)));
          d = snd (snd (civil_from_days (t div msPerDay)));
          year = (if 0 \<le> y \<and> y \<le> 9999 then padStart0 4 (show_nat (nat y))
                  else (if y < 0 then ''-'' else ''+'') @ padStart0 6 (show_nat (nat \<bar>y\<bar>)))
      in year @ ''-'' @ padStart0 2 (show_nat (nat m)) @ ''-'' @ padStart0 2 (show_nat (nat d)))"

section \<open>Roll-up of daily rows\<close>

text \<open>\<^verbatim>\<open>rollupByGranularity\<close> in \<^verbatim>\<open>src/server/tools/searchAnalytics.ts\<close>\<close>

datatype granularity = Weekly | Monthly | Auto

text \<open>
  The granularity that is used; \<open>None\<close> is the early \<^verbatim>\<open>return rows\<close> of a short range.
  With an Invalid Date the day count is NaN, both comparisons are false and the rows
  are returned. The parser \<open>other\<close> is the parameter of \<open>Date_parse\<close>.
\<close>

definition resolve_granularity ::
  "date_parser \<Rightarrow> granularity \<Rightarrow> string \<Rightarrow> string \<Rightarrow> granularity option" where
  "resolve_granularity other g startDate endDate =
     (if g = Auto then
        (case (Date_parse other startDate, Date_parse other endDate) of
           (Some start, Some end) \<Rightarrow>
             (let days = \<lceil>real_of_int (end - start) / real_of_int msPerDay\<rceil> in
              if days > 90 then Some Monthly
              else if days > 21 then Some Weekly
              else None)
         | _ \<Rightarrow> None)
      else Some g)"

text \<open>
  The bucket key of a date string. An Invalid Date prints as \<open>NaN-NaN\<close> in the monthly
  key; in the weekly key \<^verbatim>\<open>toISOString\<close> throws a \<^verbatim>\<open>RangeError\<close>.
\<close>

definition bucketKey :: "date_parser \<Rightarrow> int \<Rightarrow> granularity \<Rightarrow> string \<Rightarrow> error + string" where
  "bucketKey other tz actualGranularity dateStr =
     (case Date_parse other dateStr of
        None \<Rightarrow>
          if actualGranularity = Monthly then Inr ''NaN-NaN''
          else Inl (RangeError ''Invalid time value'')
      | Some d \<Rightarrow>
          if actualGranularity = Monthly then
            Inr (show_int (getFullYear tz d) @ ''-'' @ padStart0 2 (show_int (getMonth tz d + 1)))
          else
            Inr (toISOString_date (setDate tz d (getDate tz d - getDay tz d + 1))))"

record bucket =
  b_clicks :: number
  b_impressions :: number
  b_positions :: "number list"
  b_dates :: "string list"

definition bucket_push :: "bucket \<Rightarrow> row \<Rightarrow> string \<Rightarrow> bucket" where
  "bucket_push b r dateStr =
     \<lparr> b_clicks = b_clicks b + clicks r,
       b_impressions = b_impressions b + impressions r,
       b_positions = b_positions b @ [position r],
       b_dates = b_dates b @ [dateStr] \<rparr>"

definition empty_bucket :: bucket where
  "empty_bucket = \<lparr> b_clicks = 0, b_impressions = 0, b_positions = [], b_dates = [] \<rparr>"

text \<open>The \<^verbatim>\<open>Map\<close> of buckets keeps the order in which keys first occur.\<close>

fun buckets_add :: "(string \<times> bucket) list \<Rightarrow> string \<Rightarrow> row \<Rightarrow> string \<Rightarrow> (string \<times> bucket) list" where
  "buckets_add [] k r dateStr = [(k, bucket_push empty_bucket r dateStr)]"
| "buckets_add ((k', b) # bs) k r dateStr =
     (if k' = k then (k', bucket_push b r dateStr) # bs
      else (k', b) # buckets_add bs k r dateStr)"

text \<open>The \<^verbatim>\<open>for\<close> loop over the rows: a row without a date key is skipped.\<close>

fun group_rows ::
  "date_parser \<Rightarrow> int \<Rightarrow> granularity \<Rightarrow> row list \<Rightarrow> (string \<times> bucket) list \<Rightarrow>
     error + (string \<times> bucket) list" where
  "group_rows other tz g [] buckets = Inr buckets"
| "group_rows other tz g (r # rs) buckets =
     (case key_at r 0 of
        None \<Rightarrow> group_rows other tz g rs buckets
      | Some dateStr \<Rightarrow>
          if dateStr = [] then group_rows other tz g rs buckets
          else
            (case bucketKey other tz g dateStr of
               Inl e \<Rightarrow> Inl e
             | Inr k \<Rightarrow> group_rows other tz g rs (buckets_add buckets k r dateStr)))"

definition bucket_row :: "string \<times> bucket \<Rightarrow> row" where
  "bucket_row kb =
     (let bucketKey = fst kb; b = snd kb;
          avgPosition = (if length (b_positions b) > 0
                         then foldl (+) 0 (b_positions b) / real (length (b_positions b))
                         else 0)
      in \<lparr> keys = Some [bucketKey],
           clicks = b_clicks b,
           impressions = b_impressions b,
           ctr = (if b_impressions b > 0 then b_clicks b / b_impressions b else 0),
           position = avgPosition \<rparr>)"

text \<open>
  \<^verbatim>\<open>a.localeCompare(b)\<close> on bucket keys. A key is made of digits and hyphens, has a
  plus sign in front for a year beyond 9999, or is \<open>NaN-NaN\<close>. On such strings the
  collation compares character by character, a proper prefix first, with the hyphen
  before the plus sign, both before the digits, and the digits before the letters:
  \<open>collation_key\<close> gives each character its rank, and the keys are compared as lists
  of ranks. For keys without a plus sign this is the order of the character codes.
  The sort is stable.
\<close>

definition collation_weight :: "char \<Rightarrow> nat" where
  "collation_weight c =
     (if c = CHR ''-'' then 0 else if c = CHR ''+'' then 1 else 2 + of_char c)"

definition collation_key :: "string \<Rightarrow> nat list" where
  "collation_key s = map collation_weight s"

definition rollupByGranularity ::
  "date_parser \<Rightarrow> int \<Rightarrow> row list \<Rightarrow> granularity \<Rightarrow> string \<Rightarrow> string \<Rightarrow> error + row list" where
  "rollupByGranularity other tz rs g startDate endDate =
     (case resolve_granularity other g startDate endDate of
        None \<Rightarrow> Inr rs
      | Some actualGranularity \<Rightarrow>
          (case group_rows other tz actualGranularity rs [] of
             Inl e \<Rightarrow> Inl e
           | Inr buckets \<Rightarrow>
               Inr (sort_key (\<lambda>r. collation_key (or_string (key_at r 0) ''''))
                      (map bucket_row buckets))))"

definition date_row :: "string \<Rightarrow> number \<Rightarrow> number \<Rightarrow> number \<Rightarrow> row" where
  "date_row day c i p =
     \<lparr> keys = Some [day], clicks = c, impressions = i, ctr = c / i, position = p \<rparr>"

text \<open>
  For the statements about the roll-up: the bucket key that the loop gives a row, \<open>None\<close>
  for a row that it skips or that makes it throw.
\<close>

definition row_bucket :: "date_parser \<Rightarrow> int \<Rightarrow> granularity \<Rightarrow> row \<Rightarrow> string option" where
  "row_bucket other tz g r =
     (case key_at r 0 of
        None \<Rightarrow> None
      | Some dateStr \<Rightarrow>
          if dateStr = [] then None
          else (case bucketKey other tz g dateStr of Inl e \<Rightarrow> None | Inr k \<Rightarrow> Some k))"


text \<open>The bucket that holds the rows \<open>ms\<close> on top of what \<open>b\<close> holds.\<close>

definition holds :: "bucket \<Rightarrow> bucket \<Rightarrow> row list \<Rightarrow> bool" where
  "holds b' b ms \<longleftrightarrow>
     b_clicks b' = b_clicks b + sum_list (map clicks ms) \<and>
     b_impressions b' = b_impressions b + sum_list (map impressions ms) \<and>
     b_positions b' = b_positions b @ map position ms"


section \<open>Period comparison\<close>

text \<open>\<^verbatim>\<open>report.comparePeriods\<close> in \<^verbatim>\<open>src/server/tools/searchAnalytics.ts\<close>\<close>

record totals =
  t_clicks :: number
  t_impressions :: number
  t_ctr :: number
  t_position :: number
  t_count :: nat

text \<open>\<^verbatim>\<open>rows?.reduce(\<dots>)\<close>: undefined when there are no rows at all.\<close>

definition period_totals :: "row list option \<Rightarrow> totals option" where
  "period_totals response_rows =
     map_option
       (foldl (\<lambda>acc r. \<lparr> t_clicks = t_clicks acc + clicks r,
                          t_impressions = t_impressions acc + impressions r,
                          t_ctr = 0,
                          t_position = t_position acc + position r,
                          t_count = t_count acc + 1 \<rparr>)
              \<lparr> t_clicks = 0, t_impressions = 0, t_ctr = 0, t_position = 0, t_count = 0 \<rparr>)
       response_rows"

datatype number_or_na = Num number | NA

record changes =
  ch_clicks :: number
  ch_clicksPercent :: string
  ch_impressions :: number
  ch_impressionsPercent :: string
  ch_avgPosition :: number_or_na

definition comparePeriods_changes :: "row list option \<Rightarrow> row list option \<Rightarrow> changes option" where
  "comparePeriods_changes rows1 rows2 =
     (case (period_totals rows1, period_totals rows2) of
        (Some totals1, Some totals2) \<Rightarrow>
          Some \<lparr> ch_clicks = t_clicks totals1 - t_clicks totals2,
                 ch_clicksPercent =
                   (if t_clicks totals2 \<noteq> 0
                    then toFixed 1 ((t_clicks totals1 - t_clicks totals2) / t_clicks totals2 * 100) @ ''%''
                    else ''N/A''),
                 ch_impressions = t_impressions totals1 - t_impressions totals2,
                 ch_impressionsPercent =
                   (if t_impressions totals2 \<noteq> 0
                    then toFixed 1 ((t_impressions totals1 - t_impressions totals2)
                                      / t_impressions totals2 * 100) @ ''%''
                    else ''N/A''),
                 ch_avgPosition =
                   (if t_count totals1 \<noteq> 0 \<and> t_count totals2 \<noteq> 0
                    then Num (formatPosition (t_position totals1 / real (t_count totals1)
                                               - t_position totals2 / real (t_count totals2)))
                    else NA) \<rparr>
      | _ \<Rightarrow> None)"

text \<open>
  The sibling report \<^verbatim>\<open>report.weeklySummary\<close> formats its changes with an explicit
  sign: \<^verbatim>\<open>`${d >= 0 ? '+' : ''}${(d * 100).toFixed(2)}%`\<close> for the change of the ctr.
\<close>

definition weeklySummary_ctr_change :: "number \<Rightarrow> number \<Rightarrow> string" where
  "weeklySummary_ctr_change currentCtr prevCtr =
     (if currentCtr - prevCtr \<ge> 0 then ''+'' else '''')
       @ toFixed 2 ((currentCtr - prevCtr) * 100) @ ''%''"

subsection \<open>Rows and arguments for the worked examples\<close>

text \<open>A row for the query ``shoes'' on a page, with its ctr derived from clicks and
  impressions; a tool call that leaves every optional argument but the limit out.\<close>

definition shoes_row :: "string \<Rightarrow> number \<Rightarrow> number \<Rightarrow> number \<Rightarrow> row" where
  "shoes_row page c i p =
     \<lparr> keys = Some [''shoes'', page], clicks = c, impressions = i, ctr = c / i, position = p \<rparr>"

definition plain_args :: "int option \<Rightarrow> opportunity_args" where
  "plain_args limit =
     \<lparr> og_siteUrl = ''sc-domain:example.com'', og_format = None, og_minImpressions = None,
       og_maxCtr = None, og_minPosition = None, og_maxPosition = None, og_limit = limit \<rparr>"



text \<open>Three daily rows of the first week of 2024; 2024-01-07 is a Sunday.\<close>

definition january_rows :: "row list" where
  "january_rows =
     [date_row ''2024-01-07'' 50 100 3, date_row ''2024-01-01'' 1 10 5,
      date_row ''2024-01-06'' 10 20 7]"

text \<open>
  A parser that finds the date 1990-01-01, at midnight UTC, in the string
  ``nike air max 90'', and no date in any other string.
\<close>

definition lenient_parser :: date_parser where
  "lenient_parser s = (if s = ''nike air max 90'' then Some 631152000000 else None)"


section \<open>Properties of the client\<close>

subsection \<open>Traces of the retry loop and of pagination\<close>

lemma requests_of_append: "requests_of (xs @ ys) = requests_of xs @ requests_of ys"
  by (induction xs rule: requests_of.induct) auto

lemma withRetry_loop_success:
  "answer t = Inr d \<Longrightarrow> attempt \<le> retries \<Longrightarrow>
     withRetry_loop (remote_call ev answer) retries attempt le t = (Inr d, t @ [ev])"
  by (subst withRetry_loop.simps) (simp add: remote_call_def)

lemma withRetry_loop_permanent:
  "answer t = Inl e \<Longrightarrow> \<not> isRetryableError e \<Longrightarrow> attempt \<le> retries \<Longrightarrow>
     withRetry_loop (remote_call ev answer) retries attempt le t = (Inl e, t @ [ev])"
  by (subst withRetry_loop.simps) (simp add: remote_call_def)

text \<open>What the retry loop adds to the trace: copies of the call, and sleeps.\<close>

lemma withRetry_loop_trace:
  "operation = remote_call ev answer \<Longrightarrow> ev \<notin> range Sleep \<Longrightarrow>
   \<exists>evs. snd (withRetry_loop operation retries attempt le t) = t @ evs
     \<and> set evs \<subseteq> insert ev (range Sleep)
     \<and> length (filter (\<lambda>x. x = ev) evs) \<le> Suc retries - attempt
     \<and> (attempt \<le> retries \<longrightarrow> 1 \<le> length (filter (\<lambda>x. x = ev) evs))"
proof (induction operation retries attempt le t rule: withRetry_loop.induct)
  case (1 operation retries attempt lastError t)
  note opdef = \<open>operation = remote_call ev answer\<close>
  show ?case
  proof (cases "attempt \<le> retries")
    case False
    then show ?thesis by (subst withRetry_loop.simps) simp
  next
    case True
    show ?thesis
    proof (cases "answer t")
      case (Inr v)
      then show ?thesis using True opdef
        by (subst withRetry_loop.simps) (simp add: remote_call_def)
    next
      case (Inl e)
      show ?thesis
      proof (cases "\<not> isRetryableError e \<or> attempt = retries")
        case True
        then show ?thesis using Inl \<open>attempt \<le> retries\<close> opdef
          by (subst withRetry_loop.simps) (auto simp add: remote_call_def)
      next
        case False
        have op: "operation t = (Inl e, t @ [ev])"
          using Inl opdef by (simp add: remote_call_def)
        note notsleep = \<open>ev \<notin> range Sleep\<close>
        from "1.IH"[OF True op[symmetric] refl False opdef notsleep]
        obtain evs where evs: "snd (withRetry_loop operation retries (attempt + 1) (Some e)
                  (sleep (RETRY_DELAY_MS * 2 ^ attempt) (t @ [ev]))) = sleep (RETRY_DELAY_MS * 2 ^ attempt) (t @ [ev]) @ evs"
          "set evs \<subseteq> insert ev (range Sleep)"
          "length (filter (\<lambda>x. x = ev) evs) \<le> Suc retries - (attempt + 1)"
          by blast
        have "snd (withRetry_loop operation retries attempt lastError t)
            = t @ (ev # Sleep (RETRY_DELAY_MS * 2 ^ attempt) # evs)"
          using False True op evs(1)
          by (subst withRetry_loop.simps) (simp add: sleep_def)
        moreover have "set (ev # Sleep (RETRY_DELAY_MS * 2 ^ attempt) # evs) \<subseteq> insert ev (range Sleep)"
          using evs(2) by auto
        moreover have "length (filter (\<lambda>x. x = ev) (ev # Sleep (RETRY_DELAY_MS * 2 ^ attempt) # evs)) \<le> Suc retries - attempt"
          using evs(3) True False notsleep by auto
        moreover have "1 \<le> length (filter (\<lambda>x. x = ev) (ev # Sleep (RETRY_DELAY_MS * 2 ^ attempt) # evs))"
          by simp
        ultimately show ?thesis by blast
      qed
    qed
  qed
qed

lemma requests_of_retries:
  "set evs \<subseteq> insert (SearchanalyticsQuery req) (range Sleep) \<Longrightarrow>
   requests_of evs = replicate (length (filter (\<lambda>x. x = SearchanalyticsQuery req) evs)) req"
  by (induction evs rule: requests_of.induct) auto

lemma page_requests_zero: "page_requests q s 0 = []"
  by (simp add: page_requests_def MAX_ROWS_PER_REQUEST_def)

lemma page_requests_step:
  assumes "0 < r"
  shows "page_requests q s r =
     requestBody q (min MAX_ROWS_PER_REQUEST r) s
       # page_requests q (s + min MAX_ROWS_PER_REQUEST r) (r - min MAX_ROWS_PER_REQUEST r)"
proof (cases "r \<le> MAX_ROWS_PER_REQUEST")
  case True
  have one: "(r + MAX_ROWS_PER_REQUEST - 1) div MAX_ROWS_PER_REQUEST = Suc 0"
    using assms True by (simp add: MAX_ROWS_PER_REQUEST_def)
  have m: "min MAX_ROWS_PER_REQUEST r = r" using True by simp
  have "page_requests q s r = [requestBody q r s]"
    unfolding page_requests_def one using m by simp
  then show ?thesis
    by (simp add: m page_requests_zero)
next
  case False
  then have gt: "MAX_ROWS_PER_REQUEST < r" by simp
  have cnt: "(r + MAX_ROWS_PER_REQUEST - 1) div MAX_ROWS_PER_REQUEST
        = Suc ((r - MAX_ROWS_PER_REQUEST + MAX_ROWS_PER_REQUEST - 1) div MAX_ROWS_PER_REQUEST)"
    using gt by (simp add: MAX_ROWS_PER_REQUEST_def)
  have m: "min MAX_ROWS_PER_REQUEST r = MAX_ROWS_PER_REQUEST" using gt by simp
  define k where "k = (r - MAX_ROWS_PER_REQUEST + MAX_ROWS_PER_REQUEST - 1) div MAX_ROWS_PER_REQUEST"
  define f where "f = (\<lambda>i. requestBody q
                 (min MAX_ROWS_PER_REQUEST (r - i * MAX_ROWS_PER_REQUEST))
                 (s + i * MAX_ROWS_PER_REQUEST))"
  define g where "g = (\<lambda>i. requestBody q
                 (min MAX_ROWS_PER_REQUEST (r - MAX_ROWS_PER_REQUEST - i * MAX_ROWS_PER_REQUEST))
                 (s + MAX_ROWS_PER_REQUEST + i * MAX_ROWS_PER_REQUEST))"
  have fg: "f (Suc i) = g i" for i
    by (simp add: f_def g_def add.assoc)
  have f0: "f 0 = requestBody q MAX_ROWS_PER_REQUEST s"
    using m by (simp add: f_def)
  have "page_requests q s r = map f [0..<Suc k]"
    unfolding page_requests_def cnt k_def f_def ..
  also have "\<dots> = f 0 # map (\<lambda>i. f (Suc i)) [0..<k]"
    by (rule map_upt_Suc)
  also have "\<dots> = requestBody q MAX_ROWS_PER_REQUEST s # map g [0..<k]"
    by (simp only: fg f0)
  also have "map g [0..<k] = page_requests q (s + MAX_ROWS_PER_REQUEST) (r - MAX_ROWS_PER_REQUEST)"
    unfolding page_requests_def k_def g_def ..
  finally show ?thesis by (simp only: m)
qed

lemma requestBody_update [simp]:
  "requestBody (q\<lparr> q_rowLimit := a, q_startRow := b \<rparr>) rl sr = requestBody q rl sr"
  by (simp add: requestBody_def)

lemma searchAnalytics_single:
  assumes "default_nat (q_rowLimit q) 1000 \<le> MAX_ROWS_PER_REQUEST"
    and "searchanalytics_query svc t
           (requestBody q (default_nat (q_rowLimit q) 1000) (default_nat (q_startRow q) 0)) = Inr d"
  shows "searchAnalytics svc q t =
     (Inr \<lparr> rows = map_option (map toRow) (aq_rows d),
            responseAggregationType = or_undefined_string (aq_responseAggregationType d) \<rparr>,
      t @ [SearchanalyticsQuery
             (requestBody q (default_nat (q_rowLimit q) 1000) (default_nat (q_startRow q) 0))])"
  using assms
  by (simp add: searchAnalytics.simps withRetry_def MAX_RETRIES_def call_searchanalytics_query_def
      withRetry_loop_success)

lemma loop_full:
  assumes full: "full_pages svc"
  shows "\<exists>resp rs. searchAnalyticsPaginated_loop svc q n allRows s agg t =
            (Inr resp, t @ map SearchanalyticsQuery (page_requests q s (n - length allRows)))
          \<and> rows resp = Some rs \<and> length rs = max n (length allRows)"
proof (induction "n - length allRows" arbitrary: allRows s agg t rule: less_induct)
  case less
  show ?case
  proof (cases "length allRows < n")
    case False
    then have "n - length allRows = 0" by simp
    then show ?thesis using False
      by (subst searchAnalyticsPaginated_loop.simps) (simp add: page_requests_zero max_def)
  next
    case True
    define r where "r = n - length allRows"
    define rtf where "rtf = min MAX_ROWS_PER_REQUEST r"
    have rpos: "0 < r" using True by (simp add: r_def)
    have rtf_pos: "0 < rtf" and rtf_le: "rtf \<le> r" and rtf_max: "rtf \<le> MAX_ROWS_PER_REQUEST"
      using rpos by (auto simp: rtf_def MAX_ROWS_PER_REQUEST_def)
    define q' where "q' = q\<lparr> q_rowLimit := Some rtf, q_startRow := Some s \<rparr>"
    from full obtain d ars where
      ans: "searchanalytics_query svc t (requestBody q rtf s) = Inr d"
      and ars: "aq_rows d = Some ars" "length ars = rtf"
      unfolding full_pages_def
      by (metis request.select_convs(6) requestBody_def)
    define resp' where "resp' = \<lparr> rows = map_option (map toRow) (aq_rows d),
            responseAggregationType = or_undefined_string (aq_responseAggregationType d) \<rparr>"
    have call: "searchAnalytics svc q' t = (Inr resp', t @ [SearchanalyticsQuery (requestBody q rtf s)])"
      using searchAnalytics_single[of q' svc t d] rtf_max ans
      by (simp add: q'_def default_nat_def resp'_def)
    have rows': "rows resp' = Some (map toRow ars)" by (simp add: resp'_def ars)
    have ne: "map toRow ars \<noteq> []" using ars rtf_pos by auto
    have less': "n - length (allRows @ map toRow ars) < n - length allRows"
      using True ars rtf_pos by simp
    from less[OF less', of "s + rtf" "responseAggregationType resp'" "t @ [SearchanalyticsQuery (requestBody q rtf s)]"]
    obtain resp rs where
      rec: "searchAnalyticsPaginated_loop svc q n (allRows @ map toRow ars) (s + rtf)
              (responseAggregationType resp') (t @ [SearchanalyticsQuery (requestBody q rtf s)]) =
            (Inr resp, (t @ [SearchanalyticsQuery (requestBody q rtf s)]) @
               map SearchanalyticsQuery (page_requests q (s + rtf) (n - length (allRows @ map toRow ars))))"
      and rs: "rows resp = Some rs" "length rs = max n (length (allRows @ map toRow ars))"
      by blast
    have rem: "n - length (allRows @ map toRow ars) = r - rtf"
      using ars by (simp add: r_def)
    have rem': "n - (length allRows + rtf) = r - rtf"
      by (simp add: r_def)
    have step: "page_requests q s r = requestBody q rtf s # page_requests q (s + rtf) (r - rtf)"
      using page_requests_step[OF rpos, of q s] by (simp add: rtf_def)
    have "searchAnalyticsPaginated_loop svc q n allRows s agg t =
            (Inr resp, t @ map SearchanalyticsQuery (page_requests q s (n - length allRows)))"
      apply (subst searchAnalyticsPaginated_loop.simps)
      using True call rows' ne ars rec
      apply (simp add: Let_def r_def[symmetric] rtf_def[symmetric] q'_def[symmetric])
      apply (simp add: rem' step r_def[symmetric])
      done
    moreover have "length rs = max n (length allRows)"
      using rs(2) ars rtf_le True by (simp add: r_def)
    ultimately show ?thesis using rs(1) by blast
  qed
qed

lemma snd_case_result:
  "snd (case x of (Inl e, t') \<Rightarrow> (Inl e, t') | (Inr d, t') \<Rightarrow> (Inr (f d), t')) = snd x"
  by (cases x) (auto split: sum.splits)

lemma searchAnalytics_single_trace:
  assumes le: "default_nat (q_rowLimit q) 1000 \<le> MAX_ROWS_PER_REQUEST"
  defines "req \<equiv> requestBody q (default_nat (q_rowLimit q) 1000) (default_nat (q_startRow q) 0)"
  shows "\<exists>evs k. snd (searchAnalytics svc q t) = t @ evs \<and> requests_of evs = replicate k req
           \<and> 1 \<le> k \<and> k \<le> 4
           \<and> ((case searchanalytics_query svc t req of Inr d \<Rightarrow> True | Inl e \<Rightarrow> \<not> isRetryableError e)
                \<longrightarrow> evs = [SearchanalyticsQuery req])"
proof -
  define ev where "ev = SearchanalyticsQuery req"
  define answer where "answer = (\<lambda>t. searchanalytics_query svc t req)"
  have snd_eq: "snd (searchAnalytics svc q t) = snd (withRetry_loop (remote_call ev answer) 3 0 None t)"
    using le
    by (simp add: searchAnalytics.simps snd_case_result withRetry_def MAX_RETRIES_def
        call_searchanalytics_query_def req_def ev_def answer_def Let_def)
  have "ev \<notin> range Sleep" by (auto simp: ev_def)
  from withRetry_loop_trace[OF refl this, of answer 3 0 None t]
  obtain evs where evs: "snd (withRetry_loop (remote_call ev answer) 3 0 None t) = t @ evs"
    "set evs \<subseteq> insert ev (range Sleep)"
    "length (filter (\<lambda>x. x = ev) evs) \<le> 4" "1 \<le> length (filter (\<lambda>x. x = ev) evs)"
    by auto
  define k where "k = length (filter (\<lambda>x. x = ev) evs)"
  have "requests_of evs = replicate k req"
    using requests_of_retries[of evs req] evs(2) by (simp add: ev_def k_def)
  moreover have "evs = [ev]"
    if "case answer t of Inr d \<Rightarrow> True | Inl e \<Rightarrow> \<not> isRetryableError e"
  proof (cases "answer t")
    case (Inr d)
    from withRetry_loop_success[where answer=answer and t=t and attempt=0 and retries=3 and ev=ev and le=None, OF this]
      evs(1) show ?thesis by simp
  next
    case (Inl e)
    with that have "\<not> isRetryableError e" by simp
    from withRetry_loop_permanent[where answer=answer and t=t and attempt=0 and retries=3 and ev=ev and le=None, OF Inl this]
      evs(1) show ?thesis by simp
  qed
  ultimately show ?thesis
    using snd_eq evs k_def unfolding ev_def answer_def by auto
qed

lemma loop_bound:
  "\<exists>evs. snd (searchAnalyticsPaginated_loop svc q n allRows s agg t) = t @ evs
     \<and> (\<forall>req \<in> set (requests_of evs). rq_rowLimit req \<le> MAX_ROWS_PER_REQUEST)"
proof (induction "n - length allRows" arbitrary: allRows s agg t rule: less_induct)
  case less
  show ?case
  proof (cases "length allRows < n")
    case False
    then show ?thesis
      by (subst searchAnalyticsPaginated_loop.simps) simp
  next
    case True
    define rtf where "rtf = min MAX_ROWS_PER_REQUEST (n - length allRows)"
    define q' where "q' = q\<lparr> q_rowLimit := Some rtf, q_startRow := Some s \<rparr>"
    have le: "default_nat (q_rowLimit q') 1000 \<le> MAX_ROWS_PER_REQUEST"
      by (simp add: q'_def default_nat_def rtf_def)
    from searchAnalytics_single_trace[OF le, of svc t]
    obtain evs1 k where evs1: "snd (searchAnalytics svc q' t) = t @ evs1"
      "requests_of evs1 = replicate k (requestBody q rtf s)"
      by (auto simp: q'_def default_nat_def)
    have ok1: "\<forall>req \<in> set (requests_of evs1). rq_rowLimit req \<le> MAX_ROWS_PER_REQUEST"
      using evs1(2) by (auto simp: requestBody_def rtf_def)
    obtain res t' where call: "searchAnalytics svc q' t = (res, t')" by (cases "searchAnalytics svc q' t")
    with evs1 have t': "t' = t @ evs1" by simp
    have unfold: "searchAnalyticsPaginated_loop svc q n allRows s agg t =
        (case res of
           Inl e \<Rightarrow> (Inl e, t')
         | Inr response \<Rightarrow>
             (case rows response of
                None \<Rightarrow> (Inr \<lparr> rows = Some allRows, responseAggregationType = agg \<rparr>, t')
              | Some rs \<Rightarrow>
                  if rs = [] then
                    (Inr \<lparr> rows = Some allRows, responseAggregationType = agg \<rparr>, t')
                  else if length rs < rtf then
                    (Inr \<lparr> rows = Some (allRows @ rs),
                           responseAggregationType = responseAggregationType response \<rparr>, t')
                  else searchAnalyticsPaginated_loop svc q n (allRows @ rs)
                         (s + rtf) (responseAggregationType response) t'))"
      using True call
      by (subst searchAnalyticsPaginated_loop.simps)
         (simp add: Let_def rtf_def[symmetric] q'_def[symmetric] split: sum.splits)
    show ?thesis
    proof (cases "\<exists>response rs. res = Inr response \<and> rows response = Some rs \<and> rs \<noteq> [] \<and> \<not> length rs < rtf")
      case False
      then have "snd (searchAnalyticsPaginated_loop svc q n allRows s agg t) = t'"
        unfolding unfold by (auto split: sum.splits option.splits)
      then show ?thesis using t' ok1 by auto
    next
      case True
      then obtain response rs where r: "res = Inr response" "rows response = Some rs" "rs \<noteq> []"
        "\<not> length rs < rtf" by blast
      have less': "n - length (allRows @ rs) < n - length allRows"
        using \<open>length allRows < n\<close> r(3) by (cases rs) auto
      from less[OF less', of "s + rtf" "responseAggregationType response" t']
      obtain evs2 where evs2: "snd (searchAnalyticsPaginated_loop svc q n (allRows @ rs) (s + rtf)
              (responseAggregationType response) t') = t' @ evs2"
         "\<forall>req \<in> set (requests_of evs2). rq_rowLimit req \<le> MAX_ROWS_PER_REQUEST"
        by blast
      have "snd (searchAnalyticsPaginated_loop svc q n allRows s agg t) = t @ (evs1 @ evs2)"
        unfolding unfold using r evs2(1) t' by simp
      moreover have "\<forall>req \<in> set (requests_of (evs1 @ evs2)). rq_rowLimit req \<le> MAX_ROWS_PER_REQUEST"
        using ok1 evs2(2) by (auto simp: requests_of_append)
      ultimately show ?thesis by blast
    qed
  qed
qed

lemma searchAnalytics_bound:
  "\<exists>evs. snd (searchAnalytics svc q t) = t @ evs
     \<and> (\<forall>req \<in> set (requests_of evs). rq_rowLimit req \<le> MAX_ROWS_PER_REQUEST)"
proof (cases "default_nat (q_rowLimit q) 1000 \<le> MAX_ROWS_PER_REQUEST")
  case True
  from searchAnalytics_single_trace[OF True, of svc t]
  obtain evs k where "snd (searchAnalytics svc q t) = t @ evs"
    "requests_of evs = replicate k (requestBody q (default_nat (q_rowLimit q) 1000) (default_nat (q_startRow q) 0))"
    by blast
  moreover from this(2) True
  have "\<forall>req \<in> set (requests_of evs). rq_rowLimit req \<le> MAX_ROWS_PER_REQUEST"
    by (auto simp: requestBody_def)
  ultimately show ?thesis by blast
next
  case False
  then have "searchAnalytics svc q t = searchAnalyticsPaginated_loop svc q
       (or_nat (q_rowLimit q) MAX_ROWS_PER_REQUEST) [] (or_nat (q_startRow q) 0) None t"
    by (simp add: searchAnalytics.simps searchAnalyticsPaginated.simps)
  then show ?thesis using loop_bound by simp
qed

lemma loop_stops_early:
  assumes "length allRows < n"
    and "searchAnalytics svc
           (q\<lparr> q_rowLimit := Some (min MAX_ROWS_PER_REQUEST (n - length allRows)),
               q_startRow := Some s \<rparr>) t = (Inr response, t')"
    and "case rows response of None \<Rightarrow> True
         | Some rs \<Rightarrow> rs = [] \<or> length rs < min MAX_ROWS_PER_REQUEST (n - length allRows)"
  shows "snd (searchAnalyticsPaginated_loop svc q n allRows s agg t) = t'"
  using assms
  by (subst searchAnalyticsPaginated_loop.simps) (auto simp: Let_def split: option.splits)

lemma searchAnalytics_paginated_full:
  assumes "MAX_ROWS_PER_REQUEST < default_nat (q_rowLimit q) 1000" and "full_pages svc"
  shows "snd (searchAnalytics svc q t) =
           t @ map SearchanalyticsQuery
                 (page_requests q (or_nat (q_startRow q) 0) (default_nat (q_rowLimit q) 1000))"
proof -
  have eq: "or_nat (q_rowLimit q) MAX_ROWS_PER_REQUEST = default_nat (q_rowLimit q) 1000"
    using assms(1) by (auto simp: or_nat_def default_nat_def MAX_ROWS_PER_REQUEST_def split: option.splits)
  have "searchAnalytics svc q t = searchAnalyticsPaginated_loop svc q
       (default_nat (q_rowLimit q) 1000) [] (or_nat (q_startRow q) 0) None t"
    using assms(1) by (simp add: searchAnalytics.simps searchAnalyticsPaginated.simps eq)
  then show ?thesis
    using loop_full[OF assms(2), of q "default_nat (q_rowLimit q) 1000" "[]" "or_nat (q_startRow q) 0" None t]
    by auto
qed

lemma page_requests_length:
  "length (page_requests q s n) = (n + MAX_ROWS_PER_REQUEST - 1) div MAX_ROWS_PER_REQUEST"
  by (simp add: page_requests_def)

lemma ceil_div_nat:
  assumes "0 < d"
  shows "int ((n + d - 1) div d) = \<lceil>real n / real d\<rceil>"
proof -
  define k where "k = (n + d - 1) div d"
  define m where "m = (n + d - 1) mod d"
  have eq: "n + d - 1 = d * k + m" and m: "m < d"
    using assms by (simp_all add: k_def m_def)
  have a: "n \<le> d * k" using eq m by linarith
  have b: "d * k < n + d" using eq m assms by linarith
  have a': "real n \<le> real d * real k"
    using of_nat_mono[OF a, where 'a=real] by simp
  have b': "real d * real k < real n + real d"
    using b by (metis of_nat_less_iff of_nat_mult of_nat_add)
  have dpos: "0 < real d" using assms by simp
  have "\<lceil>real n / real d\<rceil> = int k"
  proof (rule ceiling_unique)
    show "real_of_int (int k) - 1 < real n / real d"
      using b' dpos by (simp add: field_simps)
    show "real n / real d \<le> real_of_int (int k)"
      using a' dpos by (simp add: field_simps)
  qed
  then show ?thesis by (simp add: k_def)
qed

lemma page_requests_ceiling:
  "int (length (page_requests q s n)) = \<lceil>real n / real MAX_ROWS_PER_REQUEST\<rceil>"
  using ceil_div_nat[of MAX_ROWS_PER_REQUEST n]
  by (simp add: page_requests_def MAX_ROWS_PER_REQUEST_def)

lemma page_requests_startRows:
  "map rq_startRow (page_requests q s n) = map (\<lambda>i. s + i * MAX_ROWS_PER_REQUEST) [0..<length (page_requests q s n)]"
  by (simp add: page_requests_def requestBody_def)

lemma page_requests_increasing: "sorted_wrt (<) (map rq_startRow (page_requests q s n))"
  unfolding page_requests_startRows
  by (simp add: sorted_wrt_map MAX_ROWS_PER_REQUEST_def)

subsection \<open>Retry\<close>

lemma withRetry_exhausted:
  assumes "operation t0 = (Inl e0, t1)" "isRetryableError e0"
    and "operation (sleep 1000 t1) = (Inl e1, t2)" "isRetryableError e1"
    and "operation (sleep 2000 t2) = (Inl e2, t3)" "isRetryableError e2"
    and "operation (sleep 4000 t3) = (Inl e3, t4)"
  shows "withRetry operation MAX_RETRIES t0 = (Inl e3, t4)"
  using assms
  by (simp add: withRetry_def MAX_RETRIES_def RETRY_DELAY_MS_def withRetry_loop.simps)

lemma withRetry_permanent:
  assumes "operation t0 = (Inl e, t1)" "\<not> isRetryableError e"
  shows "withRetry operation MAX_RETRIES t0 = (Inl e, t1)"
  using assms
  by (simp add: withRetry_def MAX_RETRIES_def withRetry_loop.simps)

lemma withRetry_remote_exhausted:
  assumes "answer t = Inl e0" "isRetryableError e0"
    and "answer (t @ [ev, Sleep 1000]) = Inl e1" "isRetryableError e1"
    and "answer (t @ [ev, Sleep 1000, ev, Sleep 2000]) = Inl e2" "isRetryableError e2"
    and "answer (t @ [ev, Sleep 1000, ev, Sleep 2000, ev, Sleep 4000]) = Inl e3"
  shows "withRetry (remote_call ev answer) MAX_RETRIES t =
           (Inl e3, t @ [ev, Sleep 1000, ev, Sleep 2000, ev, Sleep 4000, ev])"
  by (rule withRetry_exhausted[where ?e0.0=e0 and ?e1.0=e1 and ?e2.0=e2
        and ?t1.0="t @ [ev]" and ?t2.0="t @ [ev, Sleep 1000, ev]"
        and ?t3.0="t @ [ev, Sleep 1000, ev, Sleep 2000, ev]"])
     (use assms in \<open>simp_all add: remote_call_def sleep_def\<close>)

text \<open>
  C2. An operation that fails with a retryable error at each of its attempts is run
  exactly four times by \<open>withRetry\<close>, with sleeps of 1000, 2000 and 4000 ms
  between the attempts, and the error of the fourth attempt is thrown. An operation
  whose first attempt fails with an error that is not retryable is run once and that
  error is thrown, with no sleep. Both facts are stated for an arbitrary operation on
  the trace and, with the trace written out, for a remote call.
\<close>

theorem withRetry_backoff:
  "(operation t0 = (Inl e0, t1) \<and> isRetryableError e0
      \<and> operation (sleep 1000 t1) = (Inl e1, t2) \<and> isRetryableError e1
      \<and> operation (sleep 2000 t2) = (Inl e2, t3) \<and> isRetryableError e2
      \<and> operation (sleep 4000 t3) = (Inl e3, t4) \<and> isRetryableError e3
      \<longrightarrow> withRetry operation MAX_RETRIES t0 = (Inl e3, t4))
   \<and> (answer t = Inl e0 \<and> isRetryableError e0
      \<and> answer (t @ [ev, Sleep 1000]) = Inl e1 \<and> isRetryableError e1
      \<and> answer (t @ [ev, Sleep 1000, ev, Sleep 2000]) = Inl e2 \<and> isRetryableError e2
      \<and> answer (t @ [ev, Sleep 1000, ev, Sleep 2000, ev, Sleep 4000]) = Inl e3
      \<and> isRetryableError e3
      \<longrightarrow> withRetry (remote_call ev answer) MAX_RETRIES t =
            (Inl e3, t @ [ev, Sleep 1000, ev, Sleep 2000, ev, Sleep 4000, ev]))
   \<and> (operation t0 = (Inl e, t1) \<and> \<not> isRetryableError e
      \<longrightarrow> withRetry operation MAX_RETRIES t0 = (Inl e, t1))
   \<and> (answer t = Inl e \<and> \<not> isRetryableError e
      \<longrightarrow> withRetry (remote_call ev answer) MAX_RETRIES t = (Inl e, t @ [ev]))"
  using withRetry_exhausted[of operation t0 e0 t1 e1 t2 e2 t3 e3 t4]
    withRetry_remote_exhausted[of answer t e0 ev e1 e2 e3]
    withRetry_permanent[of operation t0 e t1]
    withRetry_permanent[of "remote_call ev answer" t e "t @ [ev]"]
  by (simp add: remote_call_def)

lemma retryable_quota: "isRetryableError (Error ''Quota exceeded'')"
  by (simp add: isRetryableError_def toLowerCase_def toLowerCaseChar_def)

lemma not_retryable_403: "\<not> isRetryableError (Error ''403 Forbidden'')"
  by (simp add: isRetryableError_def toLowerCase_def toLowerCaseChar_def)

text \<open>
  The two cases of \<open>withRetry_backoff\<close> on a service that always answers
  ``Quota exceeded'', and on one that always answers ``403 Forbidden''.
\<close>

theorem withRetry_backoff_witness:
  "withRetry (remote_call (SitesGet ''sc-domain:example.com'') (\<lambda>t. Inl (Error ''Quota exceeded'')))
      MAX_RETRIES []
     = (Inl (Error ''Quota exceeded'') :: error + api_site,
        [SitesGet ''sc-domain:example.com'', Sleep 1000,
         SitesGet ''sc-domain:example.com'', Sleep 2000,
         SitesGet ''sc-domain:example.com'', Sleep 4000,
         SitesGet ''sc-domain:example.com''])
   \<and> withRetry (remote_call (SitesGet ''sc-domain:example.com'') (\<lambda>t. Inl (Error ''403 Forbidden'')))
      MAX_RETRIES []
     = (Inl (Error ''403 Forbidden'') :: error + api_site, [SitesGet ''sc-domain:example.com''])"
  using withRetry_backoff[where answer="\<lambda>t. Inl (Error ''Quota exceeded'') :: error + api_site"
      and t="[]" and ev="SitesGet ''sc-domain:example.com''"
      and ?e0.0="Error ''Quota exceeded''" and ?e1.0="Error ''Quota exceeded''"
      and ?e2.0="Error ''Quota exceeded''" and ?e3.0="Error ''Quota exceeded''"
      and operation="remote_call (SitesGet ''sc-domain:example.com'') (\<lambda>t. Inl (Error ''403 Forbidden'') :: error + api_site)"
      and ?t0.0="[]" and e="Error ''403 Forbidden''" and ?t1.0="[SitesGet ''sc-domain:example.com'']"]
    retryable_quota not_retryable_403
  by (simp add: remote_call_def)

subsection \<open>Pagination\<close>

lemma loop_unfold:
  assumes "length allRows < n"
    and "searchAnalytics svc
           (q\<lparr> q_rowLimit := Some (min MAX_ROWS_PER_REQUEST (n - length allRows)),
               q_startRow := Some s \<rparr>) t = (Inr response, t')"
  shows "searchAnalyticsPaginated_loop svc q n allRows s agg t =
     (case rows response of
        None \<Rightarrow> (Inr \<lparr> rows = Some allRows, responseAggregationType = agg \<rparr>, t')
      | Some rs \<Rightarrow>
          if rs = [] then (Inr \<lparr> rows = Some allRows, responseAggregationType = agg \<rparr>, t')
          else if length rs < min MAX_ROWS_PER_REQUEST (n - length allRows) then
            (Inr \<lparr> rows = Some (allRows @ rs),
                   responseAggregationType = responseAggregationType response \<rparr>, t')
          else searchAnalyticsPaginated_loop svc q n (allRows @ rs)
                 (s + min MAX_ROWS_PER_REQUEST (n - length allRows))
                 (responseAggregationType response) t')"
  using assms by (subst searchAnalyticsPaginated_loop.simps) (simp add: Let_def)

lemma page_call:
  assumes "rtf \<le> MAX_ROWS_PER_REQUEST"
    and "searchanalytics_query svc t (requestBody q rtf s) = Inr d"
  shows "searchAnalytics svc (q\<lparr> q_rowLimit := Some rtf, q_startRow := Some s \<rparr>) t =
     (Inr \<lparr> rows = map_option (map toRow) (aq_rows d),
            responseAggregationType = or_undefined_string (aq_responseAggregationType d) \<rparr>,
      t @ [SearchanalyticsQuery (requestBody q rtf s)])"
  using searchAnalytics_single[of "q\<lparr> q_rowLimit := Some rtf, q_startRow := Some s \<rparr>" svc t d] assms
  by (simp add: default_nat_def)

text \<open>
  The loop on a service whose first \<open>j\<close> answers are full pages and whose next answer
  is short: it sends the first \<open>j + 1\<close> pages and returns the rows it was given.
\<close>

lemma loop_early:
  assumes "pages = page_requests q s (n - length allRows)"
    and "j < length pages"
    and "\<forall>i<j. \<exists>d rs. searchanalytics_query svc (t @ map SearchanalyticsQuery (take i pages))
                          (pages ! i) = Inr d
                  \<and> aq_rows d = Some rs \<and> length rs = rq_rowLimit (pages ! i)"
    and "searchanalytics_query svc (t @ map SearchanalyticsQuery (take j pages)) (pages ! j) = Inr d"
    and "case aq_rows d of None \<Rightarrow> True | Some rs \<Rightarrow> length rs < rq_rowLimit (pages ! j)"
  shows "\<exists>resp rs. searchAnalyticsPaginated_loop svc q n allRows s agg t =
            (Inr resp, t @ map SearchanalyticsQuery (take (Suc j) pages))
          \<and> rows resp = Some rs
          \<and> length rs = length allRows + j * MAX_ROWS_PER_REQUEST
                          + (case aq_rows d of None \<Rightarrow> 0 | Some rs \<Rightarrow> length rs)"
  using assms
proof (induction j arbitrary: pages allRows s agg t)
  case 0
  define r where "r = n - length allRows"
  define rtf where "rtf = min MAX_ROWS_PER_REQUEST r"
  have rpos: "0 < r"
  proof (rule ccontr)
    assume "\<not> 0 < r"
    then have "pages = []" using "0.prems"(1) by (simp add: r_def page_requests_zero)
    then show False using "0.prems"(2) by simp
  qed
  have lt: "length allRows < n" using rpos by (simp add: r_def)
  have rtf_max: "rtf \<le> MAX_ROWS_PER_REQUEST" by (simp add: rtf_def)
  have step: "pages = requestBody q rtf s # page_requests q (s + rtf) (r - rtf)"
    using page_requests_step[OF rpos, of q s] "0.prems"(1) by (simp add: rtf_def r_def)
  have p0: "pages ! 0 = requestBody q rtf s" by (subst step) simp
  have lim: "rq_rowLimit (pages ! 0) = rtf" unfolding p0 by (simp add: requestBody_def)
  have ans: "searchanalytics_query svc t (requestBody q rtf s) = Inr d"
    using "0.prems"(4) p0 by simp
  have short: "case aq_rows d of None \<Rightarrow> True | Some rs \<Rightarrow> length rs < rtf"
    using "0.prems"(5) unfolding lim .
  define t' where "t' = t @ [SearchanalyticsQuery (requestBody q rtf s)]"
  define resp' where "resp' = \<lparr> rows = map_option (map toRow) (aq_rows d),
            responseAggregationType = or_undefined_string (aq_responseAggregationType d) \<rparr>"
  have call: "searchAnalytics svc
           (q\<lparr> q_rowLimit := Some (min MAX_ROWS_PER_REQUEST (n - length allRows)),
               q_startRow := Some s \<rparr>) t = (Inr resp', t')"
    using page_call[OF rtf_max ans] by (simp add: rtf_def r_def resp'_def t'_def)
  have tr: "t @ map SearchanalyticsQuery (take (Suc 0) pages) = t'"
    by (subst step) (simp add: t'_def)
  show ?case
  proof (cases "aq_rows d")
    case None
    then have "searchAnalyticsPaginated_loop svc q n allRows s agg t
        = (Inr \<lparr> rows = Some allRows, responseAggregationType = agg \<rparr>, t')"
      unfolding loop_unfold[OF lt call] by (simp add: resp'_def)
    then show ?thesis unfolding tr using None by simp
  next
    case (Some ars)
    then have len: "length ars < rtf" using short by simp
    have rows': "rows resp' = Some (map toRow ars)" by (simp add: resp'_def Some)
    show ?thesis
    proof (cases "ars = []")
      case True
      then have "searchAnalyticsPaginated_loop svc q n allRows s agg t
          = (Inr \<lparr> rows = Some allRows, responseAggregationType = agg \<rparr>, t')"
        unfolding loop_unfold[OF lt call] rows' by simp
      then show ?thesis unfolding tr using Some True by simp
    next
      case False
      then have "searchAnalyticsPaginated_loop svc q n allRows s agg t
          = (Inr \<lparr> rows = Some (allRows @ map toRow ars),
                   responseAggregationType = responseAggregationType resp' \<rparr>, t')"
        unfolding loop_unfold[OF lt call] rows' using len by (auto simp add: rtf_def r_def)
      then show ?thesis unfolding tr using Some by simp
    qed
  qed
next
  case (Suc j)
  define r where "r = n - length allRows"
  define rtf where "rtf = min MAX_ROWS_PER_REQUEST r"
  have rpos: "0 < r"
  proof (rule ccontr)
    assume "\<not> 0 < r"
    then have "pages = []" using Suc.prems(1) by (simp add: r_def page_requests_zero)
    then show False using Suc.prems(2) by simp
  qed
  have lt: "length allRows < n" using rpos by (simp add: r_def)
  have rtf_max: "rtf \<le> MAX_ROWS_PER_REQUEST" by (simp add: rtf_def)
  define rest where "rest = page_requests q (s + rtf) (r - rtf)"
  have step: "pages = requestBody q rtf s # rest"
    using page_requests_step[OF rpos, of q s] Suc.prems(1) by (simp add: rtf_def r_def rest_def)
  have jrest: "j < length rest" using Suc.prems(2) by (simp add: step)
  have big: "MAX_ROWS_PER_REQUEST < r"
  proof (rule ccontr)
    assume "\<not> MAX_ROWS_PER_REQUEST < r"
    then have "r - rtf = 0" by (simp add: rtf_def)
    then have "rest = []" by (simp add: rest_def page_requests_zero)
    then show False using jrest by simp
  qed
  have rtf_eq: "rtf = MAX_ROWS_PER_REQUEST" using big by (simp add: rtf_def)
  have p0: "pages ! 0 = requestBody q rtf s" by (subst step) simp
  have lim: "rq_rowLimit (pages ! 0) = rtf" unfolding p0 by (simp add: requestBody_def)
  from Suc.prems(3)[rule_format, of 0] obtain d0 ars0 where
    ans: "searchanalytics_query svc t (requestBody q rtf s) = Inr d0"
    and ars0: "aq_rows d0 = Some ars0" "length ars0 = rtf"
    using p0 lim by auto
  define t' where "t' = t @ [SearchanalyticsQuery (requestBody q rtf s)]"
  define resp' where "resp' = \<lparr> rows = map_option (map toRow) (aq_rows d0),
            responseAggregationType = or_undefined_string (aq_responseAggregationType d0) \<rparr>"
  have call: "searchAnalytics svc
           (q\<lparr> q_rowLimit := Some (min MAX_ROWS_PER_REQUEST (n - length allRows)),
               q_startRow := Some s \<rparr>) t = (Inr resp', t')"
    using page_call[OF rtf_max ans] by (simp add: rtf_def r_def resp'_def t'_def)
  have rows': "rows resp' = Some (map toRow ars0)" by (simp add: resp'_def ars0)
  have rtf_pos: "0 < rtf" using rpos by (simp add: rtf_def MAX_ROWS_PER_REQUEST_def)
  have ne: "map toRow ars0 \<noteq> []" using ars0 rtf_pos by auto
  have nl: "\<not> length (map toRow ars0) < min MAX_ROWS_PER_REQUEST (n - length allRows)"
    using ars0 by (simp add: rtf_def r_def)
  have unfold: "searchAnalyticsPaginated_loop svc q n allRows s agg t =
      searchAnalyticsPaginated_loop svc q n (allRows @ map toRow ars0) (s + rtf)
        (responseAggregationType resp') t'"
    unfolding loop_unfold[OF lt call] rows' using ne nl by (auto simp add: rtf_def r_def)
  have rem: "n - length (allRows @ map toRow ars0) = r - rtf"
    using ars0 by (simp add: r_def)
  have rest': "rest = page_requests q (s + rtf) (n - length (allRows @ map toRow ars0))"
    unfolding rem rest_def ..
  have tk: "t @ map SearchanalyticsQuery (take (Suc i) pages)
            = t' @ map SearchanalyticsQuery (take i rest)" for i
    by (subst step) (simp add: t'_def)
  have nth: "pages ! Suc i = rest ! i" for i by (subst step) simp
  have full': "\<forall>i<j. \<exists>d rs. searchanalytics_query svc (t' @ map SearchanalyticsQuery (take i rest))
                          (rest ! i) = Inr d
                  \<and> aq_rows d = Some rs \<and> length rs = rq_rowLimit (rest ! i)"
  proof (intro allI impI)
    fix i assume "i < j"
    then have "Suc i < Suc j" by simp
    from Suc.prems(3)[rule_format, OF this] show "\<exists>d rs. searchanalytics_query svc
        (t' @ map SearchanalyticsQuery (take i rest)) (rest ! i) = Inr d
                  \<and> aq_rows d = Some rs \<and> length rs = rq_rowLimit (rest ! i)"
      unfolding tk nth .
  qed
  have short1: "searchanalytics_query svc (t' @ map SearchanalyticsQuery (take j rest)) (rest ! j) = Inr d"
    using Suc.prems(4) unfolding tk nth .
  have short2: "case aq_rows d of None \<Rightarrow> True | Some rs \<Rightarrow> length rs < rq_rowLimit (rest ! j)"
    using Suc.prems(5) unfolding nth .
  from Suc.IH[OF rest' jrest full' short1 short2,
      of "responseAggregationType resp'"]
  obtain resp rs where
    rec: "searchAnalyticsPaginated_loop svc q n (allRows @ map toRow ars0) (s + rtf)
        (responseAggregationType resp') t'
          = (Inr resp, t' @ map SearchanalyticsQuery (take (Suc j) rest))"
    and rs: "rows resp = Some rs"
      "length rs = length (allRows @ map toRow ars0) + j * MAX_ROWS_PER_REQUEST
                          + (case aq_rows d of None \<Rightarrow> 0 | Some rs \<Rightarrow> length rs)"
    by blast
  have "searchAnalyticsPaginated_loop svc q n allRows s agg t
        = (Inr resp, t @ map SearchanalyticsQuery (take (Suc (Suc j)) pages))"
    unfolding unfold rec tk ..
  moreover have "length rs = length allRows + Suc j * MAX_ROWS_PER_REQUEST
                          + (case aq_rows d of None \<Rightarrow> 0 | Some rs \<Rightarrow> length rs)"
    using rs(2) ars0(2) rtf_eq by simp
  ultimately show ?case using rs(1) by blast
qed

lemma searchAnalytics_is_loop:
  assumes "MAX_ROWS_PER_REQUEST < default_nat (q_rowLimit q) 1000"
  shows "searchAnalytics svc q t = searchAnalyticsPaginated_loop svc q
       (default_nat (q_rowLimit q) 1000) [] (or_nat (q_startRow q) 0) None t"
proof -
  have eq: "or_nat (q_rowLimit q) MAX_ROWS_PER_REQUEST = default_nat (q_rowLimit q) 1000"
    using assms by (auto simp: or_nat_def default_nat_def MAX_ROWS_PER_REQUEST_def split: option.splits)
  show ?thesis
    using assms by (simp add: searchAnalytics.simps searchAnalyticsPaginated.simps eq)
qed

lemma searchAnalytics_early:
  assumes "MAX_ROWS_PER_REQUEST < default_nat (q_rowLimit q) 1000"
    and "pages = page_requests q (or_nat (q_startRow q) 0) (default_nat (q_rowLimit q) 1000)"
    and "j < length pages"
    and "\<forall>i<j. \<exists>d rs. searchanalytics_query svc (t @ map SearchanalyticsQuery (take i pages))
                          (pages ! i) = Inr d
                  \<and> aq_rows d = Some rs \<and> length rs = rq_rowLimit (pages ! i)"
    and "searchanalytics_query svc (t @ map SearchanalyticsQuery (take j pages)) (pages ! j) = Inr d"
    and "case aq_rows d of None \<Rightarrow> True | Some rs \<Rightarrow> length rs < rq_rowLimit (pages ! j)"
  shows "\<exists>resp rs. searchAnalytics svc q t =
            (Inr resp, t @ map SearchanalyticsQuery (take (Suc j) pages))
          \<and> rows resp = Some rs
          \<and> length rs = j * MAX_ROWS_PER_REQUEST
                          + (case aq_rows d of None \<Rightarrow> 0 | Some rs \<Rightarrow> length rs)"
proof -
  have p: "pages = page_requests q (or_nat (q_startRow q) 0)
                     (default_nat (q_rowLimit q) 1000 - length ([] :: row list))"
    using assms(2) by simp
  from loop_early[OF p assms(3) assms(4) assms(5) assms(6), of None]
  show ?thesis unfolding searchAnalytics_is_loop[OF assms(1)] by simp
qed

lemma searchAnalytics_full_result:
  assumes "MAX_ROWS_PER_REQUEST < default_nat (q_rowLimit q) 1000" and "full_pages svc"
  shows "\<exists>resp rs. searchAnalytics svc q t =
           (Inr resp, t @ map SearchanalyticsQuery
                 (page_requests q (or_nat (q_startRow q) 0) (default_nat (q_rowLimit q) 1000)))
         \<and> rows resp = Some rs \<and> length rs = default_nat (q_rowLimit q) 1000"
  unfolding searchAnalytics_is_loop[OF assms(1)]
  using loop_full[OF assms(2), of q "default_nat (q_rowLimit q) 1000" "[]" "or_nat (q_startRow q) 0" None t]
  by simp

lemma searchAnalytics_quota:
  "searchAnalytics (failing_service ''Quota exceeded'') (example_query (Some 100)) []
     = (Inl (Error ''Quota exceeded''),
        [SearchanalyticsQuery (requestBody (example_query (Some 100)) 100 0), Sleep 1000,
         SearchanalyticsQuery (requestBody (example_query (Some 100)) 100 0), Sleep 2000,
         SearchanalyticsQuery (requestBody (example_query (Some 100)) 100 0), Sleep 4000,
         SearchanalyticsQuery (requestBody (example_query (Some 100)) 100 0)])"
proof -
  let ?ev = "SearchanalyticsQuery (requestBody (example_query (Some 100)) 100 0)"
  have w: "withRetry (remote_call ?ev (\<lambda>t. Inl (Error ''Quota exceeded'') :: error + api_query_data))
             MAX_RETRIES []
        = (Inl (Error ''Quota exceeded''),
           [] @ [?ev, Sleep 1000, ?ev, Sleep 2000, ?ev, Sleep 4000, ?ev])"
    by (rule withRetry_remote_exhausted[where ?e0.0 = "Error ''Quota exceeded''"
          and ?e1.0 = "Error ''Quota exceeded''" and ?e2.0 = "Error ''Quota exceeded''"])
       (simp_all only: retryable_quota)
  have rl: "default_nat (q_rowLimit (example_query (Some 100))) 1000 = 100"
    and sr: "default_nat (q_startRow (example_query (Some 100))) 0 = 0"
    by (simp_all add: example_query_def default_nat_def)
  have c: "call_searchanalytics_query (failing_service ''Quota exceeded'')
             (requestBody (example_query (Some 100)) 100 0)
           = remote_call ?ev (\<lambda>t. Inl (Error ''Quota exceeded''))"
    by (simp add: call_searchanalytics_query_def failing_service_def)
  show ?thesis
    by (subst searchAnalytics.simps) (simp add: Let_def rl sr c w MAX_ROWS_PER_REQUEST_def)
qed

lemma searchAnalytics_retried:
  assumes "default_nat (q_rowLimit q) 1000 \<le> MAX_ROWS_PER_REQUEST"
    and "\<forall>t0. \<exists>e. searchanalytics_query svc t0
                      (requestBody q (default_nat (q_rowLimit q) 1000)
                                     (default_nat (q_startRow q) 0)) = Inl e
                 \<and> isRetryableError e"
  shows "snd (searchAnalytics svc q t) =
     t @ [SearchanalyticsQuery (requestBody q (default_nat (q_rowLimit q) 1000)
                                              (default_nat (q_startRow q) 0)), Sleep 1000,
          SearchanalyticsQuery (requestBody q (default_nat (q_rowLimit q) 1000)
                                              (default_nat (q_startRow q) 0)), Sleep 2000,
          SearchanalyticsQuery (requestBody q (default_nat (q_rowLimit q) 1000)
                                              (default_nat (q_startRow q) 0)), Sleep 4000,
          SearchanalyticsQuery (requestBody q (default_nat (q_rowLimit q) 1000)
                                              (default_nat (q_startRow q) 0))]"
proof -
  define req where "req = requestBody q (default_nat (q_rowLimit q) 1000) (default_nat (q_startRow q) 0)"
  define ev where "ev = SearchanalyticsQuery req"
  define answer where "answer = (\<lambda>t. searchanalytics_query svc t req)"
  have fails: "\<exists>e. answer t0 = Inl e \<and> isRetryableError e" for t0
    using assms(2) by (simp add: answer_def req_def)
  obtain e0 where e0: "answer t = Inl e0" "isRetryableError e0" using fails by blast
  obtain e1 where e1: "answer (t @ [ev, Sleep 1000]) = Inl e1" "isRetryableError e1"
    using fails by blast
  obtain e2 where e2: "answer (t @ [ev, Sleep 1000, ev, Sleep 2000]) = Inl e2" "isRetryableError e2"
    using fails by blast
  obtain e3 where e3: "answer (t @ [ev, Sleep 1000, ev, Sleep 2000, ev, Sleep 4000]) = Inl e3"
    using fails by blast
  have w: "withRetry (remote_call ev answer) MAX_RETRIES t =
           (Inl e3, t @ [ev, Sleep 1000, ev, Sleep 2000, ev, Sleep 4000, ev])"
    by (rule withRetry_remote_exhausted[OF e0 e1 e2 e3])
  have "snd (searchAnalytics svc q t) = snd (withRetry (remote_call ev answer) MAX_RETRIES t)"
    using assms(1)
    by (simp add: searchAnalytics.simps snd_case_result call_searchanalytics_query_def
        req_def ev_def answer_def Let_def)
  then show ?thesis unfolding w by (simp add: ev_def req_def)
qed

text \<open>
  C1, with the retries of a failing call counted. A descriptor whose row limit is at
  most 25000 leads to one request, the request of the descriptor: every query that
  \<open>searchAnalytics\<close> sends is that request, it is sent between one and four times,
  exactly once when the first attempt succeeds or fails with an error that is not
  retryable, and exactly four times, with sleeps of 1000, 2000 and 4000 ms in between,
  when every attempt fails with a retryable error. A descriptor whose row limit exceeds
  25000, on a service that answers every request with as many rows as it asks for,
  leads to exactly the calls \<open>page_requests\<close>: their number is the ceiling of
  limit / 25000, their offsets start at the offset of the descriptor, advance by 25000
  and are strictly increasing, and as many rows as the limit are returned. On every
  service, no request asks for more than 25000 rows. For a row limit above 25000, when
  the first \<open>j\<close> pages come back full and the next page comes back absent, empty or
  shorter than requested, \<open>searchAnalytics\<close> sends these \<open>j + 1\<close> pages and no more, and
  returns the rows it was given. At every iteration of the pagination loop, whatever
  the retries, a page that is absent, empty or shorter than requested ends the loop
  with no further call.
\<close>

theorem searchAnalytics_pagination:
  "(default_nat (q_rowLimit q) 1000 \<le> MAX_ROWS_PER_REQUEST \<longrightarrow>
      (\<exists>evs k. snd (searchAnalytics svc q t) = t @ evs
         \<and> requests_of evs =
               replicate k (requestBody q (default_nat (q_rowLimit q) 1000)
                                          (default_nat (q_startRow q) 0))
         \<and> 1 \<le> k \<and> k \<le> 4
         \<and> ((case searchanalytics_query svc t
                      (requestBody q (default_nat (q_rowLimit q) 1000)
                                     (default_nat (q_startRow q) 0)) of
                 Inr d \<Rightarrow> True
               | Inl e \<Rightarrow> \<not> isRetryableError e)
              \<longrightarrow> evs = [SearchanalyticsQuery
                            (requestBody q (default_nat (q_rowLimit q) 1000)
                                           (default_nat (q_startRow q) 0))])))
   \<and> (default_nat (q_rowLimit q) 1000 \<le> MAX_ROWS_PER_REQUEST
        \<and> (\<forall>t0. \<exists>e. searchanalytics_query svc t0
                      (requestBody q (default_nat (q_rowLimit q) 1000)
                                     (default_nat (q_startRow q) 0)) = Inl e
                 \<and> isRetryableError e)
        \<longrightarrow> snd (searchAnalytics svc q t) =
             t @ [SearchanalyticsQuery (requestBody q (default_nat (q_rowLimit q) 1000)
                                                      (default_nat (q_startRow q) 0)), Sleep 1000,
                  SearchanalyticsQuery (requestBody q (default_nat (q_rowLimit q) 1000)
                                                      (default_nat (q_startRow q) 0)), Sleep 2000,
                  SearchanalyticsQuery (requestBody q (default_nat (q_rowLimit q) 1000)
                                                      (default_nat (q_startRow q) 0)), Sleep 4000,
                  SearchanalyticsQuery (requestBody q (default_nat (q_rowLimit q) 1000)
                                                      (default_nat (q_startRow q) 0))])
   \<and> (MAX_ROWS_PER_REQUEST < default_nat (q_rowLimit q) 1000 \<and> full_pages svc \<longrightarrow>
        (let pages = page_requests q (or_nat (q_startRow q) 0) (default_nat (q_rowLimit q) 1000)
         in snd (searchAnalytics svc q t) = t @ map SearchanalyticsQuery pages
            \<and> (\<exists>resp rs. fst (searchAnalytics svc q t) = Inr resp \<and> rows resp = Some rs
                  \<and> length rs = default_nat (q_rowLimit q) 1000)
            \<and> int (length pages)
                = \<lceil>real (default_nat (q_rowLimit q) 1000) / real MAX_ROWS_PER_REQUEST\<rceil>
            \<and> map rq_startRow pages
                = map (\<lambda>i. or_nat (q_startRow q) 0 + i * MAX_ROWS_PER_REQUEST)
                      [0..<length pages]
            \<and> sorted_wrt (<) (map rq_startRow pages)))
   \<and> (\<exists>evs. snd (searchAnalytics svc q t) = t @ evs
         \<and> (\<forall>req \<in> set (requests_of evs). rq_rowLimit req \<le> MAX_ROWS_PER_REQUEST))
   \<and> (let pages = page_requests q (or_nat (q_startRow q) 0) (default_nat (q_rowLimit q) 1000)
      in MAX_ROWS_PER_REQUEST < default_nat (q_rowLimit q) 1000
         \<and> j < length pages
         \<and> (\<forall>i<j. \<exists>d rs.
                searchanalytics_query svc (t @ map SearchanalyticsQuery (take i pages)) (pages ! i)
                  = Inr d
              \<and> aq_rows d = Some rs \<and> length rs = rq_rowLimit (pages ! i))
         \<and> searchanalytics_query svc (t @ map SearchanalyticsQuery (take j pages)) (pages ! j)
             = Inr d
         \<and> (case aq_rows d of None \<Rightarrow> True | Some rs \<Rightarrow> length rs < rq_rowLimit (pages ! j))
         \<longrightarrow> snd (searchAnalytics svc q t) = t @ map SearchanalyticsQuery (take (Suc j) pages)
           \<and> (\<exists>resp rs. fst (searchAnalytics svc q t) = Inr resp \<and> rows resp = Some rs
                 \<and> length rs = j * MAX_ROWS_PER_REQUEST
                                + (case aq_rows d of None \<Rightarrow> 0 | Some rs \<Rightarrow> length rs)))
   \<and> (length allRows < n
        \<and> searchAnalytics svc
             (q\<lparr> q_rowLimit := Some (min MAX_ROWS_PER_REQUEST (n - length allRows)),
                 q_startRow := Some s \<rparr>) u = (Inr response, u')
        \<and> (case rows response of
              None \<Rightarrow> True
            | Some rs \<Rightarrow> rs = [] \<or> length rs < min MAX_ROWS_PER_REQUEST (n - length allRows))
        \<longrightarrow> snd (searchAnalyticsPaginated_loop svc q n allRows s agg u) = u')"
proof -
  define rl where "rl = default_nat (q_rowLimit q) 1000"
  define req where "req = requestBody q rl (default_nat (q_startRow q) 0)"
  define pages where "pages = page_requests q (or_nat (q_startRow q) 0) rl"
  have 1: "rl \<le> MAX_ROWS_PER_REQUEST \<longrightarrow>
      (\<exists>evs k. snd (searchAnalytics svc q t) = t @ evs
         \<and> requests_of evs = replicate k req
         \<and> 1 \<le> k \<and> k \<le> 4
         \<and> ((case searchanalytics_query svc t req of
                 Inr d \<Rightarrow> True
               | Inl e \<Rightarrow> \<not> isRetryableError e)
              \<longrightarrow> evs = [SearchanalyticsQuery req]))"
    unfolding rl_def req_def using searchAnalytics_single_trace[of q svc t] by blast
  have 2: "rl \<le> MAX_ROWS_PER_REQUEST
        \<and> (\<forall>t0. \<exists>e. searchanalytics_query svc t0 req = Inl e \<and> isRetryableError e)
        \<longrightarrow> snd (searchAnalytics svc q t) =
             t @ [SearchanalyticsQuery req, Sleep 1000, SearchanalyticsQuery req, Sleep 2000,
                  SearchanalyticsQuery req, Sleep 4000, SearchanalyticsQuery req]"
    unfolding rl_def req_def using searchAnalytics_retried[of q svc t] by blast
  have 3: "MAX_ROWS_PER_REQUEST < rl \<and> full_pages svc \<longrightarrow>
           snd (searchAnalytics svc q t) = t @ map SearchanalyticsQuery pages
            \<and> (\<exists>resp rs. fst (searchAnalytics svc q t) = Inr resp \<and> rows resp = Some rs
                  \<and> length rs = rl)"
  proof
    assume a: "MAX_ROWS_PER_REQUEST < rl \<and> full_pages svc"
    from searchAnalytics_full_result[of q svc t] a
    obtain resp rs where "searchAnalytics svc q t = (Inr resp, t @ map SearchanalyticsQuery pages)"
      "rows resp = Some rs" "length rs = rl"
      unfolding rl_def pages_def by blast
    then show "snd (searchAnalytics svc q t) = t @ map SearchanalyticsQuery pages
            \<and> (\<exists>resp rs. fst (searchAnalytics svc q t) = Inr resp \<and> rows resp = Some rs
                  \<and> length rs = rl)"
      by simp
  qed
  have pg: "int (length pages) = \<lceil>real rl / real MAX_ROWS_PER_REQUEST\<rceil>"
    "map rq_startRow pages
       = map (\<lambda>i. or_nat (q_startRow q) 0 + i * MAX_ROWS_PER_REQUEST) [0..<length pages]"
    "sorted_wrt (<) (map rq_startRow pages)"
    unfolding pages_def
    by (rule page_requests_ceiling, rule page_requests_startRows, rule page_requests_increasing)
  have 4: "\<exists>evs. snd (searchAnalytics svc q t) = t @ evs
         \<and> (\<forall>req \<in> set (requests_of evs). rq_rowLimit req \<le> MAX_ROWS_PER_REQUEST)"
    by (rule searchAnalytics_bound)
  have 5: "MAX_ROWS_PER_REQUEST < rl
         \<and> j < length pages
         \<and> (\<forall>i<j. \<exists>d rs.
                searchanalytics_query svc (t @ map SearchanalyticsQuery (take i pages)) (pages ! i)
                  = Inr d
              \<and> aq_rows d = Some rs \<and> length rs = rq_rowLimit (pages ! i))
         \<and> searchanalytics_query svc (t @ map SearchanalyticsQuery (take j pages)) (pages ! j)
             = Inr d
         \<and> (case aq_rows d of None \<Rightarrow> True | Some rs \<Rightarrow> length rs < rq_rowLimit (pages ! j))
         \<longrightarrow> snd (searchAnalytics svc q t) = t @ map SearchanalyticsQuery (take (Suc j) pages)
           \<and> (\<exists>resp rs. fst (searchAnalytics svc q t) = Inr resp \<and> rows resp = Some rs
                 \<and> length rs = j * MAX_ROWS_PER_REQUEST
                                + (case aq_rows d of None \<Rightarrow> 0 | Some rs \<Rightarrow> length rs))"
  proof
    assume a: "MAX_ROWS_PER_REQUEST < rl
         \<and> j < length pages
         \<and> (\<forall>i<j. \<exists>d rs.
                searchanalytics_query svc (t @ map SearchanalyticsQuery (take i pages)) (pages ! i)
                  = Inr d
              \<and> aq_rows d = Some rs \<and> length rs = rq_rowLimit (pages ! i))
         \<and> searchanalytics_query svc (t @ map SearchanalyticsQuery (take j pages)) (pages ! j)
             = Inr d
         \<and> (case aq_rows d of None \<Rightarrow> True | Some rs \<Rightarrow> length rs < rq_rowLimit (pages ! j))"
    have a1: "MAX_ROWS_PER_REQUEST < default_nat (q_rowLimit q) 1000"
      using a by (simp add: rl_def)
    have a2: "pages = page_requests q (or_nat (q_startRow q) 0) (default_nat (q_rowLimit q) 1000)"
      by (simp add: pages_def rl_def)
    from a have a3: "j < length pages" by (elim conjE)
    from a have a4: "\<forall>i<j. \<exists>d rs.
                searchanalytics_query svc (t @ map SearchanalyticsQuery (take i pages)) (pages ! i)
                  = Inr d
              \<and> aq_rows d = Some rs \<and> length rs = rq_rowLimit (pages ! i)" by (elim conjE)
    from a have a5: "searchanalytics_query svc (t @ map SearchanalyticsQuery (take j pages)) (pages ! j)
             = Inr d" by (elim conjE)
    from a have a6: "case aq_rows d of None \<Rightarrow> True | Some rs \<Rightarrow> length rs < rq_rowLimit (pages ! j)"
      by (elim conjE)
    from searchAnalytics_early[OF a1 a2 a3 a4 a5 a6]
    obtain resp rs where "searchAnalytics svc q t =
            (Inr resp, t @ map SearchanalyticsQuery (take (Suc j) pages))"
      "rows resp = Some rs"
      "length rs = j * MAX_ROWS_PER_REQUEST
                          + (case aq_rows d of None \<Rightarrow> 0 | Some rs \<Rightarrow> length rs)"
      by blast
    then show "snd (searchAnalytics svc q t) = t @ map SearchanalyticsQuery (take (Suc j) pages)
           \<and> (\<exists>resp rs. fst (searchAnalytics svc q t) = Inr resp \<and> rows resp = Some rs
                 \<and> length rs = j * MAX_ROWS_PER_REQUEST
                                + (case aq_rows d of None \<Rightarrow> 0 | Some rs \<Rightarrow> length rs))"
      by simp
  qed
  have 6: "length allRows < n
        \<and> searchAnalytics svc
             (q\<lparr> q_rowLimit := Some (min MAX_ROWS_PER_REQUEST (n - length allRows)),
                 q_startRow := Some s \<rparr>) u = (Inr response, u')
        \<and> (case rows response of
              None \<Rightarrow> True
            | Some rs \<Rightarrow> rs = [] \<or> length rs < min MAX_ROWS_PER_REQUEST (n - length allRows))
        \<longrightarrow> snd (searchAnalyticsPaginated_loop svc q n allRows s agg u) = u'"
    using loop_stops_early by blast
  show ?thesis
    unfolding Let_def rl_def[symmetric] req_def[symmetric] pages_def[symmetric]
    using 1 2 3 pg 4 5 6 by (intro conjI impI) blast+
qed

lemma full_pages_steady: "full_pages (steady_service None msg)"
  by (simp add: full_pages_def steady_service_def)

lemma steady_short_call:
  "searchAnalytics (steady_service (Some 10) msg)
     ((example_query (Some 60000))\<lparr> q_rowLimit := Some 25000, q_startRow := Some 0 \<rparr>) []
   = (Inr \<lparr> rows = Some (replicate 10 (toRow blank_row)), responseAggregationType = None \<rparr>,
      [SearchanalyticsQuery (requestBody (example_query (Some 60000)) 25000 0)])"
  by (subst searchAnalytics_single[where d="\<lparr> aq_rows = Some (replicate 10 blank_row),
                aq_responseAggregationType = None \<rparr>"])
     (simp_all add: default_nat_def MAX_ROWS_PER_REQUEST_def steady_service_def
        or_undefined_string_def)

lemma example_pages:
  "page_requests (example_query (Some 60000)) 0 60000 =
      [requestBody (example_query (Some 60000)) 25000 0,
       requestBody (example_query (Some 60000)) 25000 25000,
       requestBody (example_query (Some 60000)) 10000 50000]"
  by (simp add: page_requests_def MAX_ROWS_PER_REQUEST_def upt_rec)

lemma retryable_503: "isRetryableError (Error ''503 Service Unavailable'')"
  by (simp add: isRetryableError_def toLowerCase_def toLowerCaseChar_def)

text \<open>
  A limit of 100 gives one call on a service that answers, and four calls on a service
  that fails every call with ``503 Service Unavailable''; a limit of 60000 on a service
  with full pages gives three calls at offsets 0, 25000 and 50000 for 25000, 25000 and
  10000 rows, and 60000 rows; on a service whose first page is full and whose second
  page has 10 rows it gives two calls and 25010 rows; a service that answers with 10
  rows ends the loop after the first call.
\<close>

theorem searchAnalytics_pagination_witness:
  "snd (searchAnalytics (steady_service None ''unused'') (example_query (Some 100)) [])
     = [SearchanalyticsQuery (requestBody (example_query (Some 100)) 100 0)]
   \<and> snd (searchAnalytics (failing_service ''503 Service Unavailable'') (example_query (Some 100)) [])
     = [SearchanalyticsQuery (requestBody (example_query (Some 100)) 100 0), Sleep 1000,
        SearchanalyticsQuery (requestBody (example_query (Some 100)) 100 0), Sleep 2000,
        SearchanalyticsQuery (requestBody (example_query (Some 100)) 100 0), Sleep 4000,
        SearchanalyticsQuery (requestBody (example_query (Some 100)) 100 0)]
   \<and> snd (searchAnalytics (steady_service None ''unused'') (example_query (Some 60000)) [])
     = [SearchanalyticsQuery (requestBody (example_query (Some 60000)) 25000 0),
        SearchanalyticsQuery (requestBody (example_query (Some 60000)) 25000 25000),
        SearchanalyticsQuery (requestBody (example_query (Some 60000)) 10000 50000)]
   \<and> (\<exists>resp rs. fst (searchAnalytics (steady_service None ''unused'')
                        (example_query (Some 60000)) []) = Inr resp
         \<and> rows resp = Some rs \<and> length rs = 60000)
   \<and> snd (searchAnalytics (drying_service 1 10) (example_query (Some 60000)) [])
     = [SearchanalyticsQuery (requestBody (example_query (Some 60000)) 25000 0),
        SearchanalyticsQuery (requestBody (example_query (Some 60000)) 25000 25000)]
   \<and> (\<exists>resp rs. fst (searchAnalytics (drying_service 1 10) (example_query (Some 60000)) [])
                    = Inr resp
         \<and> rows resp = Some rs \<and> length rs = 25010)
   \<and> snd (searchAnalyticsPaginated_loop (steady_service (Some 10) ''unused'')
            (example_query (Some 60000)) 60000 [] 0 None [])
     = [SearchanalyticsQuery (requestBody (example_query (Some 60000)) 25000 0)]"
proof -
  let ?q = "example_query (Some 100)" and ?svc = "steady_service None ''unused''"
  let ?Q = "example_query (Some 60000)"
  have rl: "default_nat (q_rowLimit ?q) 1000 = 100" and sr: "default_nat (q_startRow ?q) 0 = 0"
    by (simp_all add: example_query_def default_nat_def)
  have le: "default_nat (q_rowLimit ?q) 1000 \<le> MAX_ROWS_PER_REQUEST"
    by (simp add: rl MAX_ROWS_PER_REQUEST_def)
  have RL: "default_nat (q_rowLimit ?Q) 1000 = 60000" and SR: "or_nat (q_startRow ?Q) 0 = 0"
    by (simp_all add: example_query_def default_nat_def or_nat_def)
  have gt: "MAX_ROWS_PER_REQUEST < default_nat (q_rowLimit ?Q) 1000"
    by (simp add: RL MAX_ROWS_PER_REQUEST_def)
  have ok: "case searchanalytics_query ?svc [] (requestBody ?q 100 0) of
              Inr d \<Rightarrow> True | Inl e \<Rightarrow> \<not> isRetryableError e"
    by (simp add: steady_service_def)
  from searchAnalytics_pagination[of ?q ?svc "[]", THEN conjunct1, unfolded rl sr] le ok
  obtain evs where "snd (searchAnalytics ?svc ?q []) = [] @ evs"
    and "evs = [SearchanalyticsQuery (requestBody ?q 100 0)]"
    unfolding rl by blast
  then have 1: "snd (searchAnalytics ?svc ?q [])
     = [SearchanalyticsQuery (requestBody ?q 100 0)]"
    by simp
  have fails: "default_nat (q_rowLimit ?q) 1000 \<le> MAX_ROWS_PER_REQUEST
     \<and> (\<forall>t0. \<exists>e. searchanalytics_query (failing_service ''503 Service Unavailable'') t0
                      (requestBody ?q (default_nat (q_rowLimit ?q) 1000)
                                     (default_nat (q_startRow ?q) 0)) = Inl e
                 \<and> isRetryableError e)"
    using le by (simp add: failing_service_def retryable_503)
  have 2: "snd (searchAnalytics (failing_service ''503 Service Unavailable'') ?q [])
     = [SearchanalyticsQuery (requestBody ?q 100 0), Sleep 1000,
        SearchanalyticsQuery (requestBody ?q 100 0), Sleep 2000,
        SearchanalyticsQuery (requestBody ?q 100 0), Sleep 4000,
        SearchanalyticsQuery (requestBody ?q 100 0)]"
    using searchAnalytics_pagination[where q = ?q and svc = "failing_service ''503 Service Unavailable''"
        and t = "[]", THEN conjunct2, THEN conjunct1, THEN mp, OF fails]
    unfolding rl sr by simp
  have full: "MAX_ROWS_PER_REQUEST < default_nat (q_rowLimit ?Q) 1000 \<and> full_pages ?svc"
    using gt full_pages_steady[of "''unused''"] by simp
  note f = searchAnalytics_pagination[where q = ?Q and svc = ?svc and t = "[]",
      THEN conjunct2, THEN conjunct2, THEN conjunct1, THEN mp, OF full,
      unfolded Let_def RL SR example_pages]
  have 3: "snd (searchAnalytics ?svc ?Q [])
     = [SearchanalyticsQuery (requestBody ?Q 25000 0),
        SearchanalyticsQuery (requestBody ?Q 25000 25000),
        SearchanalyticsQuery (requestBody ?Q 10000 50000)]"
    using f[THEN conjunct1] by simp
  have 4: "\<exists>resp rs. fst (searchAnalytics ?svc ?Q []) = Inr resp
         \<and> rows resp = Some rs \<and> length rs = 60000"
    using f[THEN conjunct2, THEN conjunct1] .
  let ?d = "\<lparr> aq_rows = Some (replicate 10 blank_row), aq_responseAggregationType = None \<rparr>"
  let ?pages = "page_requests ?Q (or_nat (q_startRow ?Q) 0) (default_nat (q_rowLimit ?Q) 1000)"
  have early: "MAX_ROWS_PER_REQUEST < default_nat (q_rowLimit ?Q) 1000
         \<and> 1 < length ?pages
         \<and> (\<forall>i<1. \<exists>d rs.
                searchanalytics_query (drying_service 1 10)
                    ([] @ map SearchanalyticsQuery (take i ?pages)) (?pages ! i) = Inr d
              \<and> aq_rows d = Some rs \<and> length rs = rq_rowLimit (?pages ! i))
         \<and> searchanalytics_query (drying_service 1 10)
               ([] @ map SearchanalyticsQuery (take 1 ?pages)) (?pages ! 1) = Inr ?d
         \<and> (case aq_rows ?d of None \<Rightarrow> True | Some rs \<Rightarrow> length rs < rq_rowLimit (?pages ! 1))"
    unfolding RL SR example_pages
    by (simp add: MAX_ROWS_PER_REQUEST_def drying_service_def requestBody_def)
  note e = searchAnalytics_pagination[where q = ?Q and svc = "drying_service 1 10" and t = "[]"
        and j = 1 and d = ?d,
      THEN conjunct2, THEN conjunct2, THEN conjunct2, THEN conjunct2, THEN conjunct1,
      unfolded Let_def, THEN mp, OF early, unfolded RL SR example_pages]
  have 5: "snd (searchAnalytics (drying_service 1 10) ?Q [])
     = [SearchanalyticsQuery (requestBody ?Q 25000 0),
        SearchanalyticsQuery (requestBody ?Q 25000 25000)]"
    using e[THEN conjunct1] by simp
  have 6: "\<exists>resp rs. fst (searchAnalytics (drying_service 1 10) ?Q []) = Inr resp
         \<and> rows resp = Some rs \<and> length rs = 25010"
    using e[THEN conjunct2] by (simp add: MAX_ROWS_PER_REQUEST_def)
  have 7: "snd (searchAnalyticsPaginated_loop (steady_service (Some 10) ''unused'')
            ?Q 60000 [] 0 None [])
     = [SearchanalyticsQuery (requestBody ?Q 25000 0)]"
    using searchAnalytics_pagination[where q="?Q"
        and svc="steady_service (Some 10) ''unused''" and allRows="[]" and n=60000 and s=0
        and u="[]" and agg=None
        and response="\<lparr> rows = Some (replicate 10 (toRow blank_row)), responseAggregationType = None \<rparr>"
        and u'="[SearchanalyticsQuery (requestBody ?Q 25000 0)]",
        THEN conjunct2, THEN conjunct2, THEN conjunct2, THEN conjunct2, THEN conjunct2]
      steady_short_call[of "''unused''"]
    by (simp add: MAX_ROWS_PER_REQUEST_def)
  from 1 2 3 4 5 6 7 show ?thesis by (intro conjI)
qed

text \<open>
  C1 as stated fails for a row limit of at most 25000: on a service that fails every
  call with ``Quota exceeded'', a limit of 100 leads to four remote calls, not one.
\<close>

theorem searchAnalytics_retries_counterexample:
  "default_nat (q_rowLimit (example_query (Some 100))) 1000 \<le> MAX_ROWS_PER_REQUEST
   \<and> searchAnalytics (failing_service ''Quota exceeded'') (example_query (Some 100)) []
     = (Inl (Error ''Quota exceeded''),
        [SearchanalyticsQuery (requestBody (example_query (Some 100)) 100 0), Sleep 1000,
         SearchanalyticsQuery (requestBody (example_query (Some 100)) 100 0), Sleep 2000,
         SearchanalyticsQuery (requestBody (example_query (Some 100)) 100 0), Sleep 4000,
         SearchanalyticsQuery (requestBody (example_query (Some 100)) 100 0)])
   \<and> length (requests_of (snd (searchAnalytics (failing_service ''Quota exceeded'')
                                  (example_query (Some 100)) []))) = 4"
proof (intro conjI)
  show "default_nat (q_rowLimit (example_query (Some 100))) 1000 \<le> MAX_ROWS_PER_REQUEST"
    by (simp add: example_query_def default_nat_def MAX_ROWS_PER_REQUEST_def)
  show "searchAnalytics (failing_service ''Quota exceeded'') (example_query (Some 100)) []
     = (Inl (Error ''Quota exceeded''),
        [SearchanalyticsQuery (requestBody (example_query (Some 100)) 100 0), Sleep 1000,
         SearchanalyticsQuery (requestBody (example_query (Some 100)) 100 0), Sleep 2000,
         SearchanalyticsQuery (requestBody (example_query (Some 100)) 100 0), Sleep 4000,
         SearchanalyticsQuery (requestBody (example_query (Some 100)) 100 0)])"
    by (rule searchAnalytics_quota)
  show "length (requests_of (snd (searchAnalytics (failing_service ''Quota exceeded'')
                                  (example_query (Some 100)) []))) = 4"
    unfolding searchAnalytics_quota by simp
qed

subsection \<open>Classification of failures, and reads that swallow them\<close>

text \<open>
  C5. The claim is that every message that carries a 5xx server status is classified
  as retryable. The code only looks for ``500'' and ``503'': a failure whose message
  is ``502 Bad Gateway'' or ``504 Gateway Timeout'' is classified as not retryable.
\<close>

theorem isRetryableError_misses_502_504:
  "isRetryableError (Error ''502 Bad Gateway'') = False
   \<and> isRetryableError (Error ''504 Gateway Timeout'') = False
   \<and> isRetryableError (Error ''500 Internal Server Error'') = True
   \<and> isRetryableError (Error ''503 Service Unavailable'') = True"
  by (simp add: isRetryableError_def toLowerCase_def toLowerCaseChar_def)

lemma getSite_catches:
  "getSite svc siteUrl t =
     (case withRetry (call_sites_get svc siteUrl) MAX_RETRIES t of
        (Inl e, t') \<Rightarrow> (Inr None, t')
      | (Inr data, t') \<Rightarrow> (Inr (Some \<lparr> si_siteUrl = or_string (as_siteUrl data) siteUrl,
                        si_permissionLevel = or_string (as_permissionLevel data) ''unknown'' \<rparr>), t'))"
  by (simp add: getSite_def split: prod.splits sum.splits)

text \<open>
  C10. \<open>getSite\<close> and \<open>getSitemap\<close> never throw: they return a value on every
  service and every trace, and whenever the retried remote call ends in an error, of
  whatever kind, the value is \<^verbatim>\<open>null\<close> (\<open>None\<close>), the same for every error.
\<close>

theorem get_operations_swallow_errors:
  "(\<exists>r t'. getSite svc siteUrl t = (Inr r, t'))
   \<and> (\<exists>r t'. getSitemap toNumber svc siteUrl feedpath t = (Inr r, t'))
   \<and> (withRetry (call_sites_get svc siteUrl) MAX_RETRIES t = (Inl e, t')
        \<longrightarrow> getSite svc siteUrl t = (Inr None, t'))
   \<and> (withRetry (call_sitemaps_get svc siteUrl feedpath) MAX_RETRIES t = (Inl e, t')
        \<longrightarrow> getSitemap toNumber svc siteUrl feedpath t = (Inr None, t'))"
  by (simp add: getSite_def getSitemap_def split: prod.splits sum.splits)

text \<open>
  A permission error (403, thrown at once) and a transient error that survives the
  four attempts (503) both give \<^verbatim>\<open>null\<close>.
\<close>

theorem get_operations_swallow_errors_witness:
  "getSite (steady_service None ''403 Forbidden'') ''https://example.com/'' []
     = (Inr None, [SitesGet ''https://example.com/''])
   \<and> getSitemap (\<lambda>s. 0) (steady_service None ''503 Service Unavailable'')
        ''https://example.com/'' ''https://example.com/sitemap.xml'' []
     = (Inr None,
        [SitemapsGet ''https://example.com/'' ''https://example.com/sitemap.xml'', Sleep 1000,
         SitemapsGet ''https://example.com/'' ''https://example.com/sitemap.xml'', Sleep 2000,
         SitemapsGet ''https://example.com/'' ''https://example.com/sitemap.xml'', Sleep 4000,
         SitemapsGet ''https://example.com/'' ''https://example.com/sitemap.xml''])"
proof (intro conjI)
  let ?svc = "steady_service None ''403 Forbidden''"
  have "withRetry (call_sites_get ?svc ''https://example.com/'') MAX_RETRIES []
          = (Inl (Error ''403 Forbidden''), [SitesGet ''https://example.com/''])"
    unfolding call_sites_get_def
    by (rule withRetry_permanent)
       (simp_all add: remote_call_def steady_service_def not_retryable_403)
  with get_operations_swallow_errors[of ?svc "''https://example.com/''" "[]"]
  show "getSite ?svc ''https://example.com/'' [] = (Inr None, [SitesGet ''https://example.com/''])"
    by blast
next
  let ?svc = "steady_service None ''503 Service Unavailable''"
  let ?ev = "SitemapsGet ''https://example.com/'' ''https://example.com/sitemap.xml''"
  have "withRetry (call_sitemaps_get ?svc ''https://example.com/'' ''https://example.com/sitemap.xml'')
           MAX_RETRIES []
          = (Inl (Error ''503 Service Unavailable''),
             [] @ [?ev, Sleep 1000, ?ev, Sleep 2000, ?ev, Sleep 4000, ?ev])"
    unfolding call_sitemaps_get_def
    by (rule withRetry_remote_exhausted[where ?e0.0="Error ''503 Service Unavailable''"
           and ?e1.0="Error ''503 Service Unavailable''" and ?e2.0="Error ''503 Service Unavailable''"])
       (simp_all add: steady_service_def retryable_503)
  with get_operations_swallow_errors[where svc="?svc" and siteUrl="''https://example.com/''"
          and feedpath="''https://example.com/sitemap.xml''" and t="[]" and toNumber="\<lambda>s. 0"]
  show "getSitemap (\<lambda>s. 0) ?svc ''https://example.com/'' ''https://example.com/sitemap.xml'' []
     = (Inr None, [?ev, Sleep 1000, ?ev, Sleep 2000, ?ev, Sleep 4000, ?ev])"
    by (metis append_Nil)
qed

section \<open>Properties of the formatters\<close>


lemma strip_matching:
  "prefix p url \<Longrightarrow> \<exists>rest. url = p @ rest \<and>
      or_str (slice_from url (length p)) ''/'' = (if rest = [] then ''/'' else rest)"
proof -
  assume "prefix p url"
  then obtain rest where r: "url = p @ rest" by (rule prefixE)
  show ?thesis
    by (rule exI[of _ rest]) (simp add: r or_str_def slice_from_def)
qed










section \<open>Properties of the opportunity analyses\<close>

subsection \<open>Evaluation of digits, sums and sorting\<close>

lemma show_nat_numeral:
  "show_nat (numeral k) =
     (if numeral k < (10::nat) then [digit_char (numeral k)]
      else show_nat (numeral k div 10) @ [digit_char (numeral k mod 10)])"
  by (rule show_nat.simps)

lemma show_nat_0: "show_nat 0 = ''0''"
  by (simp add: show_nat.simps[of 0] digit_char_def)

lemma show_nat_1: "show_nat (Suc 0) = ''1''"
  by (simp add: show_nat.simps[of "Suc 0"] digit_char_def)

lemmas show_nat_eval = show_nat_numeral show_nat_0 show_nat_1 digit_char_def

lemma foldl_add_sum_list:
  fixes a :: "'a::comm_monoid_add"
  shows "foldl (\<lambda>acc x. acc + f x) a xs = a + sum_list (map f xs)"
  by (induction xs arbitrary: a) (simp_all add: add.assoc)

lemma sorted_desc_sort_key:
  fixes f :: "'a \<Rightarrow> 'b::{linorder,ordered_ab_group_add}"
  shows "sorted_wrt (\<lambda>a b. f a \<ge> f b) (sort_key (\<lambda>x. - f x) xs)"
proof -
  have "sorted (map (\<lambda>x. - f x) (sort_key (\<lambda>x. - f x) xs))" by (rule sorted_sort_key)
  then show ?thesis by (simp add: sorted_map)
qed

subsection \<open>Low CTR at a high position\<close>

lemma potential_of_lowCtr_map:
  "potential_of (lowCtr_map args r) = Math_round (impressions r * 0.05 - clicks r)"
  by (simp add: lowCtr_map_def Let_def)

lemma lowCtr_example:
  "lowCtrHighPos (plain_args None) (Some [shoes_row ''https://example.com/a'' 10 1000 10])
     = ([FullOpportunity ''shoes'' ''/a'' 10 1000 (CtrNumber 0.01) 10 40], 40)"
  by (simp add: lowCtrHighPos_def plain_args_def shoes_row_def lowCtr_filter_def lowCtr_map_def
      default_number_def default_int_def DEFAULT_ROW_LIMIT_def slice0_def Let_def is_compact_def
      or_string_def key_at_def Math_round_def formatCtr_def formatPosition_def
      stripUrlPrefix_def startsWith_def domain_prefixes_def or_str_def slice_from_def)

text \<open>
  C7. For a limit that is not negative, the reported opportunities are the first
  \<open>limit\<close> elements of a list \<open>ranked\<close> that holds exactly the rows passing the
  filter (impressions at least \<open>minImpressions\<close>, default 100; ctr below \<open>maxCtr\<close>,
  default 0.03; position between \<open>minPosition\<close> and \<open>maxPosition\<close>, defaults 4 and
  20), each turned into an opportunity whose potential clicks are
  \<open>round (impressions * 0.05 - clicks)\<close>, in descending order of potential clicks. The
  reported total is the sum of the potential clicks of the opportunities that remain
  after the truncation. A row with 1000 impressions, 10 clicks and position 10 passes
  the default filter with 40 potential clicks.
\<close>

theorem lowCtrHighPos_spec:
  assumes "0 \<le> default_int (og_limit args) DEFAULT_ROW_LIMIT"
  shows "\<exists>ranked.
      mset ranked = image_mset (lowCtr_map args) (filter_mset (lowCtr_filter args) (mset rs))
    \<and> sorted_wrt (\<lambda>a b. potential_of a \<ge> potential_of b) ranked
    \<and> fst (lowCtrHighPos args (Some rs))
        = take (nat (default_int (og_limit args) DEFAULT_ROW_LIMIT)) ranked
    \<and> snd (lowCtrHighPos args (Some rs))
        = sum_list (map potential_of (fst (lowCtrHighPos args (Some rs))))
    \<and> (\<forall>r. potential_of (lowCtr_map args r) = Math_round (impressions r * 0.05 - clicks r))
    \<and> (\<forall>r. lowCtr_filter args r \<longleftrightarrow>
            impressions r \<ge> (case og_minImpressions args of None \<Rightarrow> 100 | Some v \<Rightarrow> v)
          \<and> ctr r < (case og_maxCtr args of None \<Rightarrow> 0.03 | Some v \<Rightarrow> v)
          \<and> (case og_minPosition args of None \<Rightarrow> 4 | Some v \<Rightarrow> v) \<le> position r
          \<and> position r \<le> (case og_maxPosition args of None \<Rightarrow> 20 | Some v \<Rightarrow> v))
    \<and> lowCtrHighPos (plain_args None) (Some [shoes_row ''https://example.com/a'' 10 1000 10])
        = ([FullOpportunity ''shoes'' ''/a'' 10 1000 (CtrNumber 0.01) 10 40], 40)"
proof -
  define ranked where
    "ranked = sort_key (\<lambda>opp. - potential_of opp) (map (lowCtr_map args) (filter (lowCtr_filter args) rs))"
  have 1: "mset ranked = image_mset (lowCtr_map args) (filter_mset (lowCtr_filter args) (mset rs))"
    by (simp add: ranked_def)
  have 2: "sorted_wrt (\<lambda>a b. potential_of a \<ge> potential_of b) ranked"
    unfolding ranked_def by (rule sorted_desc_sort_key)
  have 3: "fst (lowCtrHighPos args (Some rs))
        = take (nat (default_int (og_limit args) DEFAULT_ROW_LIMIT)) ranked"
    using assms by (simp add: lowCtrHighPos_def Let_def slice0_def ranked_def)
  have 4: "snd (lowCtrHighPos args (Some rs))
        = sum_list (map potential_of (fst (lowCtrHighPos args (Some rs))))"
    by (simp add: lowCtrHighPos_def Let_def foldl_add_sum_list)
  have 5: "\<forall>r. lowCtr_filter args r \<longleftrightarrow>
            impressions r \<ge> (case og_minImpressions args of None \<Rightarrow> 100 | Some v \<Rightarrow> v)
          \<and> ctr r < (case og_maxCtr args of None \<Rightarrow> 0.03 | Some v \<Rightarrow> v)
          \<and> (case og_minPosition args of None \<Rightarrow> 4 | Some v \<Rightarrow> v) \<le> position r
          \<and> position r \<le> (case og_maxPosition args of None \<Rightarrow> 20 | Some v \<Rightarrow> v)"
    by (simp add: lowCtr_filter_def default_number_def split: option.splits)
  show ?thesis
    using 1 2 3 4 5 potential_of_lowCtr_map lowCtr_example by blast
qed

text \<open>Two rows and a limit of 1: one opportunity at most is reported and the total is
  its potential.\<close>

theorem lowCtrHighPos_spec_witness:
  "0 \<le> default_int (og_limit (plain_args (Some 1))) DEFAULT_ROW_LIMIT
   \<and> length (fst (lowCtrHighPos (plain_args (Some 1))
        (Some [shoes_row ''https://example.com/a'' 10 1000 10,
               shoes_row ''https://example.com/b'' 20 2000 8]))) \<le> 1
   \<and> snd (lowCtrHighPos (plain_args (Some 1))
        (Some [shoes_row ''https://example.com/a'' 10 1000 10,
               shoes_row ''https://example.com/b'' 20 2000 8]))
      = sum_list (map potential_of (fst (lowCtrHighPos (plain_args (Some 1))
        (Some [shoes_row ''https://example.com/a'' 10 1000 10,
               shoes_row ''https://example.com/b'' 20 2000 8]))))"
proof -
  have h: "0 \<le> default_int (og_limit (plain_args (Some 1))) DEFAULT_ROW_LIMIT"
    by (simp add: plain_args_def default_int_def)
  have l: "nat (default_int (og_limit (plain_args (Some 1))) DEFAULT_ROW_LIMIT) = 1"
    by (simp add: plain_args_def default_int_def)
  let ?rs = "[shoes_row ''https://example.com/a'' 10 1000 10,
              shoes_row ''https://example.com/b'' 20 2000 8]"
  from lowCtrHighPos_spec[OF h, of ?rs]
  obtain ranked where
    t: "fst (lowCtrHighPos (plain_args (Some 1)) (Some ?rs)) = take 1 ranked"
    and s: "snd (lowCtrHighPos (plain_args (Some 1)) (Some ?rs))
      = sum_list (map potential_of (fst (lowCtrHighPos (plain_args (Some 1)) (Some ?rs))))"
    unfolding l by blast
  have "length (fst (lowCtrHighPos (plain_args (Some 1)) (Some ?rs))) \<le> 1"
    unfolding t by simp
  with h s show ?thesis by blast
qed

subsection \<open>Cannibalization\<close>

















section \<open>Properties of the period comparison\<close>

text \<open>
  C6. The claim is that every percent change carries an explicit sign, a \<open>+\<close> for a
  delta that is not negative, so that 120 clicks against 100 give \<open>+20.0%\<close>. In
  \<^verbatim>\<open>report.comparePeriods\<close> the code gives \<open>20.0%\<close>, with one decimal and the percent
  sign but without the \<open>+\<close>; a negative change carries its \<open>-\<close>, and a baseline of zero
  gives \<open>N/A\<close>. The sibling report \<^verbatim>\<open>report.weeklySummary\<close> does put the \<open>+\<close>.
\<close>

theorem comparePeriods_percent_without_plus:
  "map_option ch_clicksPercent
     (comparePeriods_changes (Some [shoes_row ''/a'' 120 2400 5]) (Some [shoes_row ''/a'' 100 2000 5]))
     = Some ''20.0%''
   \<and> map_option ch_impressionsPercent
     (comparePeriods_changes (Some [shoes_row ''/a'' 120 2400 5]) (Some [shoes_row ''/a'' 100 2000 5]))
     = Some ''20.0%''
   \<and> map_option ch_clicksPercent
     (comparePeriods_changes (Some [shoes_row ''/a'' 90 2400 5]) (Some [shoes_row ''/a'' 100 2000 5]))
     = Some ''-10.0%''
   \<and> map_option ch_clicksPercent
     (comparePeriods_changes (Some [shoes_row ''/a'' 120 2400 5]) (Some [shoes_row ''/a'' 0 2000 5]))
     = Some ''N/A''
   \<and> weeklySummary_ctr_change 0.06 0.05 = ''+1.00%''"
  by (simp add: comparePeriods_changes_def period_totals_def shoes_row_def toFixed_def Let_def
      show_nat_eval weeklySummary_ctr_change_def)

section \<open>Properties of the roll-up\<close>

lemma buckets_add_map_of:
  "map_of (buckets_add bs k r d) =
     (map_of bs)(k \<mapsto> bucket_push (case map_of bs k of None \<Rightarrow> empty_bucket | Some b \<Rightarrow> b) r d)"
  by (induction bs k r d rule: buckets_add.induct) (auto simp: fun_eq_iff)

lemma buckets_add_keys:
  "map fst (buckets_add bs k r d) = (if k \<in> set (map fst bs) then map fst bs else map fst bs @ [k])"
  by (induction bs k r d rule: buckets_add.induct) auto

lemma buckets_add_distinct:
  "distinct (map fst bs) \<Longrightarrow> distinct (map fst (buckets_add bs k r d))"
  by (simp add: buckets_add_keys)

lemma holds_nil: "holds b b []"
  by (simp add: holds_def)

lemma holds_push: "holds b' (bucket_push b r d) ms \<Longrightarrow> holds b' b (r # ms)"
  by (simp add: holds_def bucket_push_def add.assoc)

lemma group_rows_distinct:
  "group_rows other tz g rs bs = Inr bs' \<Longrightarrow> distinct (map fst bs) \<Longrightarrow> distinct (map fst bs')"
proof (induction other tz g rs bs rule: group_rows.induct)
  case (1 other tz g buckets)
  then show ?case by simp
next
  case (2 other tz g r rs buckets)
  then show ?case
    by (auto split: option.splits if_splits sum.splits simp: buckets_add_distinct)
qed

lemma group_rows_buckets:
  "group_rows other tz g rs bs = Inr bs' \<Longrightarrow>
   (case map_of bs' k of
      None \<Rightarrow> map_of bs k = None \<and> filter (\<lambda>r. row_bucket other tz g r = Some k) rs = []
    | Some b' \<Rightarrow>
        (map_of bs k \<noteq> None \<or> filter (\<lambda>r. row_bucket other tz g r = Some k) rs \<noteq> []) \<and>
        holds b' (case map_of bs k of None \<Rightarrow> empty_bucket | Some b \<Rightarrow> b)
          (filter (\<lambda>r. row_bucket other tz g r = Some k) rs))"
proof (induction other tz g rs bs rule: group_rows.induct)
  case (1 other tz g buckets)
  then show ?case by (auto split: option.splits simp: holds_nil)
next
  case (2 other tz g r rs buckets)
  show ?case
  proof (cases "row_bucket other tz g r")
    case None
    then have skip: "group_rows other tz g (r # rs) buckets = group_rows other tz g rs buckets
        \<or> (\<exists>e. group_rows other tz g (r # rs) buckets = Inl e)"
      by (auto simp: row_bucket_def split: option.splits if_splits sum.splits)
    with "2.prems" have eq: "group_rows other tz g rs buckets = Inr bs'" by auto
    have f: "filter (\<lambda>r. row_bucket other tz g r = Some k) (r # rs)
           = filter (\<lambda>r. row_bucket other tz g r = Some k) rs"
      using None by simp
    from None "2.prems" have
      "key_at r 0 = None \<or> key_at r 0 = Some []"
      by (auto simp: row_bucket_def split: option.splits if_splits sum.splits)
    then show ?thesis
    proof
      assume "key_at r 0 = None"
      from "2.IH"(1)[OF this eq] show ?thesis unfolding f .
    next
      assume "key_at r 0 = Some []"
      from "2.IH"(2)[OF this refl eq] show ?thesis unfolding f .
    qed
  next
    case (Some k0)
    then obtain d where d: "key_at r 0 = Some d" "d \<noteq> []" "bucketKey other tz g d = Inr k0"
      by (auto simp: row_bucket_def split: option.splits if_splits sum.splits)
    then have eq: "group_rows other tz g rs (buckets_add buckets k0 r d) = Inr bs'"
      using "2.prems" by simp
    note IH = "2.IH"(3)[OF d(1) d(2) d(3) eq]
    show ?thesis
    proof (cases "k = k0")
      case True
      have f: "filter (\<lambda>r. row_bucket other tz g r = Some k) (r # rs)
           = r # filter (\<lambda>r. row_bucket other tz g r = Some k) rs"
        using Some True by simp
      have m: "map_of (buckets_add buckets k0 r d) k =
          Some (bucket_push (case map_of buckets k of None \<Rightarrow> empty_bucket | Some b \<Rightarrow> b) r d)"
        using True by (simp add: buckets_add_map_of)
      from IH show ?thesis
        unfolding f m by (auto split: option.splits intro: holds_push)
    next
      case False
      have f: "filter (\<lambda>r. row_bucket other tz g r = Some k) (r # rs)
           = filter (\<lambda>r. row_bucket other tz g r = Some k) rs"
        using Some False by simp
      have m: "map_of (buckets_add buckets k0 r d) k = map_of buckets k"
        using False by (simp add: buckets_add_map_of)
      from IH show ?thesis unfolding f m .
    qed
  qed
qed

lemma group_rows_total:
  "(\<forall>r \<in> set rs. \<forall>d. key_at r 0 = Some d \<and> d \<noteq> [] \<longrightarrow> (\<exists>k. bucketKey other tz g d = Inr k))
   \<Longrightarrow> \<exists>bs'. group_rows other tz g rs bs = Inr bs'"
proof (induction other tz g rs bs rule: group_rows.induct)
  case (1 other tz g buckets)
  then show ?case by simp
next
  case (2 other tz g r rs buckets)
  then show ?case
    by (auto split: option.splits sum.splits)
qed

lemma bucketKey_ok:
  "g = Monthly \<or> Date_parse other d \<noteq> None \<Longrightarrow> \<exists>k. bucketKey other tz g d = Inr k"
  by (auto simp: bucketKey_def split: option.splits)

lemma resolve_granularity_cases:
  "resolve_granularity other g startDate endDate = Some ag \<Longrightarrow> ag = Weekly \<or> ag = Monthly"
  by (cases g) (auto simp: resolve_granularity_def Let_def split: option.splits if_splits)

lemma key_of_bucket_row: "or_string (key_at (bucket_row (k, b)) 0) '''' = k"
  by (simp add: bucket_row_def key_at_def or_string_def)

lemma keys_of_bucket_rows: "map (\<lambda>r. or_string (key_at r 0) '''') (map bucket_row bs) = map fst bs"
  by (induction bs) (auto simp: key_of_bucket_row)

lemma collation_weight_inj: "collation_weight c = collation_weight c' \<longleftrightarrow> c = c'"
  by (auto simp: collation_weight_def)

lemma collation_key_inj: "collation_key a = collation_key b \<longleftrightarrow> a = b"
  unfolding collation_key_def
  by (rule inj_eq[OF inj_mapI]) (simp add: inj_def collation_weight_inj)

lemma collation_weight_less:
  assumes "CHR ''-'' \<le> c" "CHR ''-'' \<le> c'"
  shows "collation_weight c < collation_weight c' \<longleftrightarrow> c < c'"
proof -
  have "c \<noteq> CHR ''+''" "c' \<noteq> CHR ''+''"
    using assms by (auto simp: less_eq_char_def)
  moreover have h: "of_char (CHR ''-'') = (45 :: nat)" by simp
  have "c = CHR ''-''" if "of_char c = (45 :: nat)" for c
    using that h by (metis of_char_eq_iff)
  ultimately show ?thesis
    using assms by (auto simp: collation_weight_def less_eq_char_def less_char_def)
qed

text \<open>On keys without characters below the hyphen, the collation is the order of the
  character codes.\<close>

lemma collation_key_less:
  assumes "\<forall>c \<in> set a. CHR ''-'' \<le> c" "\<forall>c \<in> set b. CHR ''-'' \<le> c"
  shows "collation_key a < collation_key b \<longleftrightarrow> a < b"
  using assms
proof (induction a arbitrary: b)
  case Nil
  then show ?case by (cases b) (simp_all add: collation_key_def)
next
  case (Cons x xs)
  show ?case
  proof (cases b)
    case Nil
    then show ?thesis by (simp add: collation_key_def)
  next
    case (Cons y ys)
    have w: "collation_weight x < collation_weight y \<longleftrightarrow> x < y"
      using Cons.prems \<open>b = y # ys\<close> by (simp add: collation_weight_less)
    have r: "collation_key xs < collation_key ys \<longleftrightarrow> xs < ys"
      using Cons.IH[of ys] Cons.prems \<open>b = y # ys\<close> by simp
    show ?thesis
      using w r by (simp add: \<open>b = y # ys\<close> collation_key_def[symmetric] collation_weight_inj
          collation_key_def[of "_ # _"])
  qed
qed

lemma collation_sorted:
  assumes "sorted_wrt (<) (map collation_key ks)"
    and "\<forall>k \<in> set ks. \<forall>c \<in> set k. CHR ''-'' \<le> c"
  shows "sorted_wrt (<) ks"
  using assms
  by (induction ks) (auto simp: collation_key_less)

lemma foldl_plus_sum_list:
  fixes a :: real
  shows "foldl (+) a xs = a + sum_list xs"
  by (induction xs arbitrary: a) simp_all

lemma bucket_row_of_members:
  assumes h: "holds b empty_bucket ms" and ne: "ms \<noteq> []"
    and nonneg: "\<forall>r \<in> set ms. 0 \<le> impressions r"
  shows "keys (bucket_row (k, b)) = Some [k]
    \<and> clicks (bucket_row (k, b)) = sum_list (map clicks ms)
    \<and> impressions (bucket_row (k, b)) = sum_list (map impressions ms)
    \<and> position (bucket_row (k, b)) = sum_list (map position ms) / real (length ms)
    \<and> ctr (bucket_row (k, b)) =
        (if sum_list (map impressions ms) = 0 then 0
         else sum_list (map clicks ms) / sum_list (map impressions ms))"
proof -
  have c: "b_clicks b = sum_list (map clicks ms)"
    and i: "b_impressions b = sum_list (map impressions ms)"
    and p: "b_positions b = map position ms"
    using h by (simp_all add: holds_def empty_bucket_def)
  have "0 \<le> sum_list (map impressions ms)"
    using nonneg by (intro sum_list_nonneg) auto
  then have pos: "sum_list (map impressions ms) > 0 \<longleftrightarrow> sum_list (map impressions ms) \<noteq> 0"
    by auto
  show ?thesis
    using ne pos by (simp add: bucket_row_def Let_def c i p foldl_plus_sum_list)
qed

lemma bucketKey_examples:
  "bucketKey other 0 Weekly ''2024-01-01'' = Inr ''2024-01-01''"
  "bucketKey other 0 Weekly ''2024-01-02'' = Inr ''2024-01-01''"
  "bucketKey other 0 Weekly ''2024-01-03'' = Inr ''2024-01-01''"
  "bucketKey other 0 Weekly ''2024-01-06'' = Inr ''2024-01-01''"
  "bucketKey other 0 Weekly ''2024-01-07'' = Inr ''2024-01-08''"
  "bucketKey other 0 Weekly ''2024-01-08'' = Inr ''2024-01-08''"
  "bucketKey other 120 Weekly ''2024-01-07'' = Inr ''2024-01-08''"
  "bucketKey other 0 Monthly ''2024-01-07'' = Inr ''2024-01''"
  by code_simp+

lemma sunday: "map_option (getDay 0) (Date_parse other ''2024-01-07'') = Some 0"
  by code_simp

lemma collation_example:
  "collation_key ''2024-01-01'' \<le> collation_key ''2024-01-08''"
  "\<not> collation_key ''2024-01-08'' \<le> collation_key ''2024-01-01''"
  by code_simp+

lemma rollup_week_example:
  "rollupByGranularity other 0
     [date_row ''2024-01-07'' 50 100 3, date_row ''2024-01-01'' 1 10 5, date_row ''2024-01-06'' 10 20 7]
     Weekly ''2024-01-01'' ''2024-01-07''
   = Inr [\<lparr> keys = Some [''2024-01-01''], clicks = 11, impressions = 30, ctr = 11 / 30, position = 6 \<rparr>,
          \<lparr> keys = Some [''2024-01-08''], clicks = 50, impressions = 100, ctr = 1 / 2, position = 3 \<rparr>]"
  by (simp add: rollupByGranularity_def resolve_granularity_def date_row_def key_at_def
      bucketKey_examples bucket_row_def bucket_push_def empty_bucket_def or_string_def
      collation_example)

text \<open>
  C4. The statement holds for every parser \<open>other\<close> of the strings that are not of
  the form YYYY-MM-DD, so for the one of the engine. Let the effective granularity
  \<open>ag\<close> of a call be defined (weekly or monthly) and let no row have negative
  impressions. The call returns rows when \<open>ag\<close> is monthly, or when the first key of
  every row that has one is parsed as a date. Whenever it returns rows, their keys are
  strictly ascending in the collation order, which is the order of the character
  codes when no key has a character below the hyphen, so no plus sign; there is one
  output row for each bucket key that an input row falls in and no other; and an output row with key \<open>k\<close> has as clicks and
  impressions the sums over the input rows \<open>ms\<close> of bucket \<open>k\<close>, as position the
  arithmetic mean of their positions, and as ctr the quotient of the summed clicks by
  the summed impressions, 0 when the impressions sum to 0. The ctr does not come from
  the input ctr values: in the first week of 2024 the rows with ctr 1/10 and 1/2 give
  the bucket ctr 11/30, which is not their mean.
\<close>

theorem rollup_aggregates:
  assumes eff: "resolve_granularity other g startDate endDate = Some ag"
    and nonneg: "\<forall>r \<in> set rs. 0 \<le> impressions r"
  shows "(ag = Weekly \<or> ag = Monthly)
    \<and> ((ag = Monthly \<or> (\<forall>r \<in> set rs. \<forall>d. key_at r 0 = Some d \<and> d \<noteq> [] \<longrightarrow> Date_parse other d \<noteq> None))
         \<longrightarrow> (\<exists>out. rollupByGranularity other tz rs g startDate endDate = Inr out))
    \<and> (\<forall>out. rollupByGranularity other tz rs g startDate endDate = Inr out \<longrightarrow>
          sorted_wrt (<) (map (\<lambda>b. collation_key (or_string (key_at b 0) '''')) out)
        \<and> ((\<forall>b \<in> set out. \<forall>c \<in> set (or_string (key_at b 0) ''''). CHR ''-'' \<le> c)
             \<longrightarrow> sorted_wrt (<) (map (\<lambda>b. or_string (key_at b 0) '''') out))
        \<and> (\<forall>k. (\<exists>r \<in> set rs. row_bucket other tz ag r = Some k) \<longleftrightarrow> (\<exists>b \<in> set out. keys b = Some [k]))
        \<and> (\<forall>b \<in> set out. \<exists>k ms.
              keys b = Some [k]
            \<and> ms = filter (\<lambda>r. row_bucket other tz ag r = Some k) rs
            \<and> ms \<noteq> []
            \<and> clicks b = sum_list (map clicks ms)
            \<and> impressions b = sum_list (map impressions ms)
            \<and> position b = sum_list (map position ms) / real (length ms)
            \<and> ctr b = (if sum_list (map impressions ms) = 0 then 0
                       else sum_list (map clicks ms) / sum_list (map impressions ms))))
    \<and> map ctr january_rows = [1 / 2, 1 / 10, 1 / 2]
    \<and> map_sum id (map ctr)
          (rollupByGranularity other 0 january_rows Weekly ''2024-01-01'' ''2024-01-07'')
        = Inr [11 / 30, 1 / 2]
    \<and> (11 / 30 :: real) \<noteq> (1 / 10 + 1 / 2) / 2"
proof (intro conjI impI allI)
  show "ag = Weekly \<or> ag = Monthly" using eff by (rule resolve_granularity_cases)
next
  assume "ag = Monthly \<or> (\<forall>r \<in> set rs. \<forall>d. key_at r 0 = Some d \<and> d \<noteq> [] \<longrightarrow> Date_parse other d \<noteq> None)"
  then have "\<forall>r \<in> set rs. \<forall>d. key_at r 0 = Some d \<and> d \<noteq> [] \<longrightarrow> (\<exists>k. bucketKey other tz ag d = Inr k)"
    using bucketKey_ok[of ag other _ tz] by blast
  from group_rows_total[OF this, of "[]"] obtain bs where "group_rows other tz ag rs [] = Inr bs" by blast
  then show "\<exists>out. rollupByGranularity other tz rs g startDate endDate = Inr out"
    using eff by (simp add: rollupByGranularity_def)
next
  fix out
  assume out: "rollupByGranularity other tz rs g startDate endDate = Inr out"
  then obtain bs where bs: "group_rows other tz ag rs [] = Inr bs"
    and out_def: "out = sort_key (\<lambda>r. collation_key (or_string (key_at r 0) '''')) (map bucket_row bs)"
    using eff by (auto simp: rollupByGranularity_def split: sum.splits)
  have dist: "distinct (map fst bs)"
    using group_rows_distinct[OF bs] by simp
  have set_out: "set out = bucket_row ` set bs" by (simp add: out_def)
  have entry: "(k, b) \<in> set bs \<longleftrightarrow> map_of bs k = Some b" for k b
    using map_of_eq_Some_iff[OF dist] by simp
  have inv: "case map_of bs k of
      None \<Rightarrow> filter (\<lambda>r. row_bucket other tz ag r = Some k) rs = []
    | Some b' \<Rightarrow> filter (\<lambda>r. row_bucket other tz ag r = Some k) rs \<noteq> [] \<and>
        holds b' empty_bucket (filter (\<lambda>r. row_bucket other tz ag r = Some k) rs)" for k
    using group_rows_buckets[OF bs, of k] by (auto split: option.splits)
  {
    have "mset (map (\<lambda>r. or_string (key_at r 0) '''') out) = mset (map fst bs)"
      unfolding out_def by (simp add: keys_of_bucket_rows[symmetric] del: map_map)
    then have "distinct (map (\<lambda>r. or_string (key_at r 0) '''') out)"
      using dist by (metis mset_eq_imp_distinct_iff)
    then have "distinct (map collation_key (map (\<lambda>r. or_string (key_at r 0) '''') out))"
      by (simp only: distinct_map) (simp add: inj_on_def collation_key_inj)
    then have "distinct (map (\<lambda>r. collation_key (or_string (key_at r 0) '''')) out)"
      by (simp add: comp_def)
    moreover have "sorted (map (\<lambda>r. collation_key (or_string (key_at r 0) '''')) out)"
      unfolding out_def by (rule sorted_sort_key)
    ultimately show strict: "sorted_wrt (<) (map (\<lambda>b. collation_key (or_string (key_at b 0) '''')) out)"
      by (simp add: strict_sorted_iff)
    show "sorted_wrt (<) (map (\<lambda>b. or_string (key_at b 0) '''') out)"
      if plain: "\<forall>b \<in> set out. \<forall>c \<in> set (or_string (key_at b 0) ''''). CHR ''-'' \<le> c"
    proof (rule collation_sorted)
      show "sorted_wrt (<) (map collation_key (map (\<lambda>b. or_string (key_at b 0) '''') out))"
        using strict by (simp add: comp_def)
      show "\<forall>k \<in> set (map (\<lambda>b. or_string (key_at b 0) '''') out). \<forall>c \<in> set k. CHR ''-'' \<le> c"
        using plain by simp
    qed
  }
  {
    fix k
    have "(\<exists>r \<in> set rs. row_bucket other tz ag r = Some k)
          \<longleftrightarrow> filter (\<lambda>r. row_bucket other tz ag r = Some k) rs \<noteq> []"
      by (auto simp: filter_empty_conv)
    also have "\<dots> \<longleftrightarrow> (\<exists>b. (k, b) \<in> set bs)"
      using inv[of k] unfolding entry by (auto split: option.splits)
    also have "\<dots> \<longleftrightarrow> (\<exists>b \<in> set out. keys b = Some [k])"
      unfolding set_out by (force simp: bucket_row_def Let_def)
    finally show "(\<exists>r \<in> set rs. row_bucket other tz ag r = Some k) \<longleftrightarrow> (\<exists>b \<in> set out. keys b = Some [k])" .
  }
  {
    show "\<forall>b \<in> set out. \<exists>k ms.
              keys b = Some [k]
            \<and> ms = filter (\<lambda>r. row_bucket other tz ag r = Some k) rs
            \<and> ms \<noteq> []
            \<and> clicks b = sum_list (map clicks ms)
            \<and> impressions b = sum_list (map impressions ms)
            \<and> position b = sum_list (map position ms) / real (length ms)
            \<and> ctr b = (if sum_list (map impressions ms) = 0 then 0
                       else sum_list (map clicks ms) / sum_list (map impressions ms))"
    proof
      fix b assume "b \<in> set out"
      then obtain k bk where kb: "(k, bk) \<in> set bs" "b = bucket_row (k, bk)"
        unfolding set_out by auto
      define ms where "ms = filter (\<lambda>r. row_bucket other tz ag r = Some k) rs"
      from kb(1) inv[of k] have ne: "ms \<noteq> []" and h: "holds bk empty_bucket ms"
        unfolding entry ms_def by auto
      have nn: "\<forall>r \<in> set ms. 0 \<le> impressions r" using nonneg by (simp add: ms_def)
      from bucket_row_of_members[OF h ne nn, of k] kb(2) ne ms_def
      show "\<exists>k ms.
              keys b = Some [k]
            \<and> ms = filter (\<lambda>r. row_bucket other tz ag r = Some k) rs
            \<and> ms \<noteq> []
            \<and> clicks b = sum_list (map clicks ms)
            \<and> impressions b = sum_list (map impressions ms)
            \<and> position b = sum_list (map position ms) / real (length ms)
            \<and> ctr b = (if sum_list (map impressions ms) = 0 then 0
                       else sum_list (map clicks ms) / sum_list (map impressions ms))"
        by blast
    qed
  }
next
  show "map ctr january_rows = [1 / 2, 1 / 10, 1 / 2]"
    by (simp add: january_rows_def date_row_def)
  show "map_sum id (map ctr)
          (rollupByGranularity other 0 january_rows Weekly ''2024-01-01'' ''2024-01-07'')
        = Inr [11 / 30, 1 / 2]"
    using rollup_week_example by (simp add: january_rows_def)
  show "(11 / 30 :: real) \<noteq> (1 / 10 + 1 / 2) / 2" by simp
qed

lemma january_rows_parse:
  "Date_parse other ''2024-01-07'' \<noteq> None" "Date_parse other ''2024-01-01'' \<noteq> None"
  "Date_parse other ''2024-01-06'' \<noteq> None"
  by code_simp+

lemma auto_five_weeks: "resolve_granularity other Auto ''2024-01-01'' ''2024-02-04'' = Some Weekly"
  by code_simp

lemma rollup_auto_example:
  "rollupByGranularity other 0
     [date_row ''2024-01-07'' 50 100 3, date_row ''2024-01-01'' 1 10 5, date_row ''2024-01-06'' 10 20 7]
     Auto ''2024-01-01'' ''2024-02-04''
   = Inr [\<lparr> keys = Some [''2024-01-01''], clicks = 11, impressions = 30, ctr = 11 / 30, position = 6 \<rparr>,
          \<lparr> keys = Some [''2024-01-08''], clicks = 50, impressions = 100, ctr = 1 / 2, position = 3 \<rparr>]"
  by (simp add: rollupByGranularity_def auto_five_weeks date_row_def key_at_def
      bucketKey_examples bucket_row_def bucket_push_def empty_bucket_def or_string_def
      collation_example)

lemma lenient_keys:
  "bucketKey lenient_parser 0 Monthly ''nike air max 90'' = Inr ''1990-01''"
  "bucketKey lenient_parser 0 Monthly ''1990-01-15'' = Inr ''1990-01''"
  "bucketKey lenient_parser 0 Weekly ''nike air max 90'' = Inr ''1990-01-01''"
  "bucketKey lenient_parser 0 Weekly ''tennis shoes'' = Inl (RangeError ''Invalid time value'')"
  "bucketKey lenient_parser 0 Monthly ''tennis shoes'' = Inr ''NaN-NaN''"
  by code_simp+

lemma lenient_rollup:
  "rollupByGranularity lenient_parser 0
     [date_row ''nike air max 90'' 3 10 2, date_row ''1990-01-15'' 1 10 4] Monthly [] []
   = Inr [\<lparr> keys = Some [''1990-01''], clicks = 4, impressions = 20, ctr = 1 / 5, position = 3 \<rparr>]"
  by (simp add: rollupByGranularity_def resolve_granularity_def date_row_def key_at_def
      lenient_keys bucket_row_def bucket_push_def empty_bucket_def or_string_def)

text \<open>
  Five weeks with granularity auto resolve to weekly; the three rows of
  \<open>january_rows\<close> are rolled up into two rows with ascending keys, for the buckets
  2024-01-01 and 2024-01-08. With a parser that finds the date 1990-01-01 in the query
  string ``nike air max 90'', a row whose first key is that string falls in the
  monthly bucket 1990-01, with the row of 1990-01-15.
\<close>

theorem rollup_aggregates_witness:
  "(\<exists>out. rollupByGranularity (\<lambda>s. None) 0 january_rows Auto ''2024-01-01'' ''2024-02-04'' = Inr out
      \<and> sorted_wrt (<) (map (\<lambda>b. collation_key (or_string (key_at b 0) '''')) out)
      \<and> sorted_wrt (<) (map (\<lambda>b. or_string (key_at b 0) '''') out)
      \<and> map keys out = [Some [''2024-01-01''], Some [''2024-01-08'']])
   \<and> (\<exists>out. rollupByGranularity lenient_parser 0
              [date_row ''nike air max 90'' 3 10 2, date_row ''1990-01-15'' 1 10 4] Monthly [] []
            = Inr out
      \<and> map keys out = [Some [''1990-01'']]
      \<and> map clicks out = [4] \<and> map impressions out = [20] \<and> map ctr out = [1 / 5]
      \<and> map position out = [3])"
proof
  have nonneg: "\<forall>r \<in> set january_rows. 0 \<le> impressions r"
    by (simp add: january_rows_def date_row_def)
  have parse: "Weekly = Monthly \<or> (\<forall>r \<in> set january_rows. \<forall>d. key_at r 0 = Some d \<and> d \<noteq> []
                 \<longrightarrow> Date_parse (\<lambda>s. None) d \<noteq> None)"
    using january_rows_parse[of "\<lambda>s. None"] by (simp add: january_rows_def date_row_def key_at_def)
  note t = rollup_aggregates[OF auto_five_weeks[of "\<lambda>s. None"] nonneg, where tz=0]
  from t[THEN conjunct2, THEN conjunct1, THEN mp, OF parse] obtain out where
    out: "rollupByGranularity (\<lambda>s. None) 0 january_rows Auto ''2024-01-01'' ''2024-02-04'' = Inr out"
    by blast
  have explicit: "out =
      [\<lparr> keys = Some [''2024-01-01''], clicks = 11, impressions = 30, ctr = 11 / 30, position = 6 \<rparr>,
       \<lparr> keys = Some [''2024-01-08''], clicks = 50, impressions = 100, ctr = 1 / 2, position = 3 \<rparr>]"
    using out rollup_auto_example[of "\<lambda>s. None"] by (simp add: january_rows_def)
  have plain: "\<forall>b \<in> set out. \<forall>c \<in> set (or_string (key_at b 0) ''''). CHR ''-'' \<le> c"
    unfolding explicit by (simp add: key_at_def or_string_def less_eq_char_def)
  note s = t[THEN conjunct2, THEN conjunct2, THEN conjunct1, THEN spec, THEN mp, OF out]
  have a: "sorted_wrt (<) (map (\<lambda>b. collation_key (or_string (key_at b 0) '''')) out)"
    by (rule s[THEN conjunct1])
  have b: "sorted_wrt (<) (map (\<lambda>b. or_string (key_at b 0) '''') out)"
    by (rule s[THEN conjunct2, THEN conjunct1, THEN mp, OF plain])
  have c: "map keys out = [Some [''2024-01-01''], Some [''2024-01-08'']]"
    unfolding explicit by simp
  show "\<exists>out. rollupByGranularity (\<lambda>s. None) 0 january_rows Auto ''2024-01-01'' ''2024-02-04'' = Inr out
      \<and> sorted_wrt (<) (map (\<lambda>b. collation_key (or_string (key_at b 0) '''')) out)
      \<and> sorted_wrt (<) (map (\<lambda>b. or_string (key_at b 0) '''') out)
      \<and> map keys out = [Some [''2024-01-01''], Some [''2024-01-08'']]"
    by (rule exI[of _ out]) (intro conjI out a b c)
next
  show "\<exists>out. rollupByGranularity lenient_parser 0
              [date_row ''nike air max 90'' 3 10 2, date_row ''1990-01-15'' 1 10 4] Monthly [] []
            = Inr out
      \<and> map keys out = [Some [''1990-01'']]
      \<and> map clicks out = [4] \<and> map impressions out = [20] \<and> map ctr out = [1 / 5]
      \<and> map position out = [3]"
    unfolding lenient_rollup by simp
qed

text \<open>
  C3. The claim is that a row dated on a Sunday falls in the bucket of the Monday six
  days earlier. 2024-01-07 is a Sunday (\<open>getDay\<close> is 0), and the code computes
  \<open>getDate - getDay + 1\<close>, the day after: its bucket key is 2024-01-08, the Monday
  that follows, in UTC and east of it, whatever the engine makes of strings of other
  forms. The Saturday 2024-01-06 and the Monday
  2024-01-01 have the key 2024-01-01, as claimed for the other days of the week. So
  the rows of one ISO week, Monday 2024-01-01 to Sunday 2024-01-07, are rolled up
  into two buckets.
\<close>

theorem weekly_bucket_of_sunday_is_next_monday:
  "map_option (getDay 0) (Date_parse other ''2024-01-07'') = Some 0
   \<and> bucketKey other 0 Weekly ''2024-01-07'' = Inr ''2024-01-08''
   \<and> bucketKey other 0 Weekly ''2024-01-06'' = Inr ''2024-01-01''
   \<and> bucketKey other 0 Weekly ''2024-01-01'' = Inr ''2024-01-01''
   \<and> bucketKey other 120 Weekly ''2024-01-07'' = Inr ''2024-01-08''
   \<and> rollupByGranularity other 0 january_rows Weekly ''2024-01-01'' ''2024-01-07''
      = Inr [\<lparr> keys = Some [''2024-01-01''], clicks = 11, impressions = 30, ctr = 11 / 30, position = 6 \<rparr>,
             \<lparr> keys = Some [''2024-01-08''], clicks = 50, impressions = 100, ctr = 1 / 2, position = 3 \<rparr>]"
  using sunday bucketKey_examples rollup_week_example by (simp add: january_rows_def)

end
